theory Spec2Isabelle
  imports Main
begin

section \<open>JavaScript strings\<close>

text \<open>
  A JavaScript string is a \<open>char list\<close>, one \<open>char\<close> per UTF-16 code unit; the model
  covers the strings whose code units are below 256 (ASCII and Latin-1), and \<open>length\<close>
  is the source's \<open>.length\<close>. A number is an integer or \<open>NaN\<close> (\<open>jsnum\<close> below): what
  \<open>parseInt\<close> gives for a text of fewer than 309 digits. JavaScript arithmetic and
  number-to-string conversion are exact on the integers of magnitude below \<open>2^53\<close>
  (\<open>safe\<close> below), and so is the model there; the infinities and the fractions are
  outside it.
\<close>

definition is_space :: "char \<Rightarrow> bool" where
  \<comment> \<open>WhiteSpace and LineTerminator: what \<open>trim()\<close> removes and \<open>\s\<close> matches
      (TAB, LF, VT, FF, CR, SP, NBSP).\<close>
  "is_space c = ((of_char c :: nat) \<in> {9, 10, 11, 12, 13, 32, 160})"

definition is_line_terminator :: "char \<Rightarrow> bool" where
  \<comment> \<open>the code units that \<open>.\<close> does not match\<close>
  "is_line_terminator c = ((of_char c :: nat) \<in> {10, 13})"

definition is_digit :: "char \<Rightarrow> bool" where
  \<comment> \<open>\<open>\d\<close>\<close>
  "is_digit c = (let n = of_char c :: nat in 48 \<le> n \<and> n \<le> 57)"

definition is_word_char :: "char \<Rightarrow> bool" where
  \<comment> \<open>\<open>\w\<close>, that is \<open>[A-Za-z0-9_]\<close>\<close>
  "is_word_char c = (let n = of_char c :: nat in
     (48 \<le> n \<and> n \<le> 57) \<or> (65 \<le> n \<and> n \<le> 90) \<or> n = 95 \<or> (97 \<le> n \<and> n \<le> 122))"

definition toLowerCase_char :: "char \<Rightarrow> char" where
  \<comment> \<open>\<open>A-Z\<close> and the Latin-1 capitals \<open>0xC0-0xDE\<close> (without the sign \<open>0xD7\<close>) move up by 32\<close>
  "toLowerCase_char c = (let n = of_char c :: nat in
     if (65 \<le> n \<and> n \<le> 90) \<or> (192 \<le> n \<and> n \<le> 222 \<and> n \<noteq> 215)
     then char_of (n + 32) else c)"

definition toLowerCase :: "string \<Rightarrow> string" where
  "toLowerCase s = map toLowerCase_char s"

definition canonicalize :: "char \<Rightarrow> char" where
  \<comment> \<open>how a regular expression with flag \<open>i\<close> (and no flag \<open>u\<close>) compares code units: by
      their upper case; \<open>a-z\<close> and the Latin-1 small letters \<open>0xE0-0xFE\<close> (without the sign
      \<open>0xF7\<close>) move down by 32, and a code unit whose upper case lies outside Latin-1 or
      is longer than one unit stays\<close>
  "canonicalize c = (let n = of_char c :: nat in
     if (97 \<le> n \<and> n \<le> 122) \<or> (224 \<le> n \<and> n \<le> 254 \<and> n \<noteq> 247)
     then char_of (n - 32) else c)"

definition trim :: "string \<Rightarrow> string" where
  "trim s = rev (dropWhile is_space (rev (dropWhile is_space s)))"

definition startsWith :: "string \<Rightarrow> string \<Rightarrow> bool" where
  \<comment> \<open>\<open>s.startsWith(p)\<close>, and a case-sensitive literal of a pattern at the head of \<open>s\<close>\<close>
  "startsWith p s = (take (length p) s = p)"

fun includes_str :: "string \<Rightarrow> string \<Rightarrow> bool" where
  \<comment> \<open>\<open>s.includes(p)\<close>\<close>
  "includes_str p [] = startsWith p []"
| "includes_str p (c # cs) = (startsWith p (c # cs) \<or> includes_str p cs)"

subsection \<open>The regular expressions of the validator\<close>

text \<open>
  A pattern is a predicate on the text that remains at a position: it holds when the
  pattern matches a prefix of that text. \<open>regex_test\<close> is \<open>RegExp.prototype.test\<close> of an
  unanchored pattern: some position matches.
\<close>

fun ci_prefix :: "string \<Rightarrow> string \<Rightarrow> bool" where
  \<comment> \<open>a literal under flag \<open>i\<close> at the head of the text\<close>
  "ci_prefix [] s = True"
| "ci_prefix (p # ps) [] = False"
| "ci_prefix (p # ps) (c # cs) = (canonicalize c = canonicalize p \<and> ci_prefix ps cs)"

definition lit :: "string \<Rightarrow> (string \<Rightarrow> bool) \<Rightarrow> string \<Rightarrow> bool" where
  "lit w k s = (startsWith w s \<and> k (drop (length w) s))"

definition lit_ci :: "string \<Rightarrow> (string \<Rightarrow> bool) \<Rightarrow> string \<Rightarrow> bool" where
  "lit_ci w k s = (ci_prefix w s \<and> k (drop (length w) s))"

fun ws_star :: "(string \<Rightarrow> bool) \<Rightarrow> string \<Rightarrow> bool" where
  \<comment> \<open>\<open>\s*\<close> followed by \<open>k\<close>\<close>
  "ws_star k [] = k []"
| "ws_star k (c # cs) = (k (c # cs) \<or> (is_space c \<and> ws_star k cs))"

definition ws_plus :: "(string \<Rightarrow> bool) \<Rightarrow> string \<Rightarrow> bool" where
  \<comment> \<open>\<open>\s+\<close> followed by \<open>k\<close>\<close>
  "ws_plus k s = (case s of [] \<Rightarrow> False | c # cs \<Rightarrow> is_space c \<and> ws_star k cs)"

fun dot_star :: "(string \<Rightarrow> bool) \<Rightarrow> string \<Rightarrow> bool" where
  \<comment> \<open>\<open>.*\<close> followed by \<open>k\<close>\<close>
  "dot_star k [] = k []"
| "dot_star k (c # cs) = (k (c # cs) \<or> (\<not> is_line_terminator c \<and> dot_star k cs))"

definition one_space :: "string \<Rightarrow> bool" where
  \<comment> \<open>a single \<open>\s\<close>\<close>
  "one_space s = (case s of [] \<Rightarrow> False | c # cs \<Rightarrow> is_space c)"

fun regex_test :: "(string \<Rightarrow> bool) \<Rightarrow> string \<Rightarrow> bool" where
  "regex_test m [] = m []"
| "regex_test m (c # cs) = (m (c # cs) \<or> regex_test m cs)"

text \<open>
  The keyword pattern \<open>\bkeyword\b\<close> with flag \<open>i\<close>. The assertion \<open>\b\<close> holds between two
  code units of which exactly one is a word character; the text's two ends count as
  non-word. \<open>keyword_search\<close> carries the code unit before the position.
\<close>

definition is_word_opt :: "char option \<Rightarrow> bool" where
  "is_word_opt a = (case a of None \<Rightarrow> False | Some c \<Rightarrow> is_word_char c)"

definition word_boundary :: "char option \<Rightarrow> char option \<Rightarrow> bool" where
  "word_boundary a b = (is_word_opt a \<noteq> is_word_opt b)"

definition head_opt :: "string \<Rightarrow> char option" where
  "head_opt s = (case s of [] \<Rightarrow> None | c # cs \<Rightarrow> Some c)"

definition keyword_at :: "string \<Rightarrow> char option \<Rightarrow> string \<Rightarrow> bool" where
  "keyword_at kw prev s =
     (word_boundary prev (head_opt s) \<and> ci_prefix kw s \<and>
      word_boundary (if kw = [] then prev else Some (last (take (length kw) s)))
                    (head_opt (drop (length kw) s)))"

fun keyword_search :: "string \<Rightarrow> char option \<Rightarrow> string \<Rightarrow> bool" where
  "keyword_search kw prev [] = keyword_at kw prev []"
| "keyword_search kw prev (c # cs) = (keyword_at kw prev (c # cs) \<or> keyword_search kw (Some c) cs)"

definition keyword_test :: "string \<Rightarrow> string \<Rightarrow> bool" where
  \<comment> \<open>\<open>new RegExp(`\\b${keyword}\\b`, 'i').test(s)\<close>\<close>
  "keyword_test kw s = keyword_search kw None s"

section \<open>The validator\<close>

datatype error = Error string

definition blacklistedKeywords :: "string list" where
  "blacklistedKeywords =
    [''insert'', ''update'', ''delete'', ''drop'', ''create'', ''alter'', ''truncate'',
     ''grant'', ''revoke'', ''exec'', ''execute'', ''call'', ''declare'', ''set'',
     ''use'', ''backup'', ''restore'', ''shutdown'', ''xp_'', ''sp_'', ''fn_'',
     ''openrowset'', ''opendatasource'', ''bulk'', ''into'', ''outfile'',
     ''dumpfile'', ''load_file'', ''pg_'', ''mysql'',
     ''performance_schema'', ''sys'']"

definition mutating_words :: "string list" where
  "mutating_words = [''drop'', ''delete'', ''update'', ''insert'', ''create'', ''alter'']"

definition injectionPatterns :: "(string \<Rightarrow> bool) list" where
  "injectionPatterns =
    [lit '';'' (ws_star (\<lambda>s. list_ex (\<lambda>w. ci_prefix w s) mutating_words)),
     lit_ci ''union'' (ws_plus (ci_prefix ''select'')),
     lit ''/*'' (dot_star (startsWith ''*/'')),
     lit ''--'' one_space,
     startsWith ''#'',
     ci_prefix ''xp_cmdshell'',
     ci_prefix ''sp_executesql'']"

definition count_char :: "char \<Rightarrow> string \<Rightarrow> nat" where
  \<comment> \<open>\<open>(sql.match(/c/g) || []).length\<close>\<close>
  "count_char c s = length (filter (\<lambda>x. x = c) s)"

definition validateQuery :: "string \<Rightarrow> error + unit" where
  "validateQuery sql =
     (let trimmedSQL = toLowerCase (trim sql) in
      if \<not> startsWith ''select'' trimmedSQL
      then Inl (Error ''Only SELECT statements are allowed'')
      else case find (\<lambda>keyword. keyword_test keyword trimmedSQL) blacklistedKeywords of
        Some keyword \<Rightarrow> Inl (Error (''Forbidden keyword detected: '' @ keyword))
      | None \<Rightarrow>
          if list_ex (\<lambda>pattern. regex_test pattern sql) injectionPatterns
          then Inl (Error ''Potential SQL injection detected'')
          else if length sql > 10000 then Inl (Error ''Query too long'')
          else if count_char CHR ''('' sql \<noteq> count_char CHR '')'' sql
          then Inl (Error ''Unbalanced parentheses in query'')
          else Inr ())"


section \<open>JavaScript values and the collaborators\<close>

datatype jsval =
    JUndefined | JNull | JNaN | JBool bool | JNum int | JStr string
  | JArr "jsval list" | JObj "(string \<times> jsval) list"

datatype jsnum = Num int | NaN

definition safe :: "int \<Rightarrow> bool" where
  \<comment> \<open>\<open>Number.isSafeInteger\<close>: an integer that a JavaScript number holds exactly\<close>
  "safe i = (- (2 ^ 53) < i \<and> i < 2 ^ 53)"

fun exact :: "jsnum \<Rightarrow> bool" where
  \<comment> \<open>a number that the model holds as JavaScript does\<close>
  "exact (Num i) = safe i"
| "exact NaN = True"

fun jsval_of_num :: "jsnum \<Rightarrow> jsval" where
  "jsval_of_num (Num n) = JNum n"
| "jsval_of_num NaN = JNaN"

fun num_less :: "jsnum \<Rightarrow> jsnum \<Rightarrow> bool" where
  \<comment> \<open>\<open>a < b\<close>, and \<open>b > a\<close>: false when a side is \<open>NaN\<close>\<close>
  "num_less (Num a) (Num b) = (a < b)"
| "num_less a b = False"

fun num_minus :: "jsnum \<Rightarrow> jsnum \<Rightarrow> jsnum" where
  \<comment> \<open>\<open>a - b\<close>\<close>
  "num_minus (Num a) (Num b) = Num (a - b)"
| "num_minus a b = NaN"

fun num_times :: "jsnum \<Rightarrow> jsnum \<Rightarrow> jsnum" where
  \<comment> \<open>\<open>a * b\<close>\<close>
  "num_times (Num a) (Num b) = Num (a * b)"
| "num_times a b = NaN"

fun num_min :: "jsnum \<Rightarrow> jsnum \<Rightarrow> jsnum" where
  \<comment> \<open>\<open>Math.min(a, b)\<close>\<close>
  "num_min (Num a) (Num b) = Num (min a b)"
| "num_min a b = NaN"

fun truthy :: "jsval \<Rightarrow> bool" where
  "truthy JUndefined = False"
| "truthy JNull = False"
| "truthy JNaN = False"
| "truthy (JBool b) = b"
| "truthy (JNum n) = (n \<noteq> 0)"
| "truthy (JStr s) = (s \<noteq> [])"
| "truthy (JArr xs) = True"
| "truthy (JObj kvs) = True"

fun get_prop :: "jsval \<Rightarrow> string \<Rightarrow> error + jsval" where
  \<comment> \<open>\<open>v.name\<close> for a property name that is no built-in member: a TypeError on
      \<open>undefined\<close> and \<open>null\<close>, \<open>undefined\<close> where the property is missing\<close>
  "get_prop JUndefined name = Inl (Error ''Cannot read properties of undefined'')"
| "get_prop JNull name = Inl (Error ''Cannot read properties of null'')"
| "get_prop (JObj kvs) name = Inr (case map_of kvs name of Some v \<Rightarrow> v | None \<Rightarrow> JUndefined)"
| "get_prop v name = Inr JUndefined"

definition digit_char :: "nat \<Rightarrow> char" where
  "digit_char d = char_of (48 + d)"

function string_of_nat :: "nat \<Rightarrow> string" where
  "string_of_nat n =
     (if n < 10 then [digit_char n] else string_of_nat (n div 10) @ [digit_char (n mod 10)])"
  by pat_completeness auto
termination
  by (relation "measure (\<lambda>n. n)") auto

declare string_of_nat.simps [simp del]

definition string_of_int :: "int \<Rightarrow> string" where
  \<comment> \<open>the decimal digits of an integer\<close>
  "string_of_int i = (if i < 0 then ''-'' @ string_of_nat (nat (- i)) else string_of_nat (nat i))"

fun string_of_num :: "jsnum \<Rightarrow> string" where
  \<comment> \<open>a number inside a template literal\<close>
  "string_of_num (Num i) = string_of_int i"
| "string_of_num NaN = ''NaN''"

definition digit_value :: "char \<Rightarrow> int" where
  "digit_value c = (let n = int (of_char c) in
     if 48 \<le> n \<and> n \<le> 57 then n - 48
     else if 65 \<le> n \<and> n \<le> 70 then n - 55
     else n - 87)"

definition is_hex_digit :: "char \<Rightarrow> bool" where
  "is_hex_digit c = (let n = of_char c :: nat in
     (48 \<le> n \<and> n \<le> 57) \<or> (65 \<le> n \<and> n \<le> 70) \<or> (97 \<le> n \<and> n \<le> 102))"

definition digits_value :: "int \<Rightarrow> string \<Rightarrow> int" where
  "digits_value radix ds = foldl (\<lambda>a c. radix * a + digit_value c) 0 ds"

definition parseInt_string :: "string \<Rightarrow> jsnum" where
  \<comment> \<open>\<open>parseInt(s)\<close>: leading white space, a sign, a \<open>0x\<close> prefix, then the longest run
      of digits; \<open>NaN\<close> when that run is empty\<close>
  "parseInt_string s =
     (let s1 = dropWhile is_space s;
          neg = startsWith ''-'' s1;
          s2 = (if startsWith ''-'' s1 \<or> startsWith ''+'' s1 then drop 1 s1 else s1);
          hex = (startsWith ''0x'' s2 \<or> startsWith ''0X'' s2);
          s3 = (if hex then drop 2 s2 else s2);
          ds = takeWhile (if hex then is_hex_digit else is_digit) s3;
          v = digits_value (if hex then 16 else 10) ds
      in if ds = [] then NaN else Num (if neg then - v else v))"

fun parseInt :: "jsval \<Rightarrow> jsnum" where
  \<comment> \<open>\<open>parseInt(v)\<close> parses \<open>String(v)\<close>; an array prints its elements separated by commas,
      so only its first element counts\<close>
  "parseInt (JNum n) = Num n"
| "parseInt (JStr s) = parseInt_string s"
| "parseInt (JArr []) = NaN"
| "parseInt (JArr (x # xs)) = parseInt x"
| "parseInt v = NaN"

record db_result =
  db_rows :: "jsval list"
  db_fields :: "jsval list option"

text \<open>
  The environment of a call: the process configuration, the database pool, the clock and
  the library functions the code calls. \<open>pool_query\<close> is the driver's answer to a
  statement text (\<open>Inl\<close>: it rejects); \<open>JSON_parse\<close> gives \<open>None\<close> where \<open>JSON.parse\<close>
  throws, \<open>JSON_stringify\<close> gives \<open>None\<close> where \<open>JSON.stringify\<close> throws or returns
  \<open>undefined\<close>; \<open>elapsed\<close> is what \<open>Date.now() - startTime\<close> measures.
\<close>

record env =
  DB_TYPE :: "string option"
  pool_query :: "string \<Rightarrow> error + db_result"
  JSON_parse :: "string \<Rightarrow> jsval option"
  JSON_stringify :: "jsval \<Rightarrow> string option"
  md5_hex :: "string \<Rightarrow> string"
  gzip_base64 :: "string \<Rightarrow> string"
  elapsed :: int

definition dbType :: "env \<Rightarrow> string" where
  \<comment> \<open>\<open>process.env.DB_TYPE || 'postgresql'\<close>\<close>
  "dbType E = (case DB_TYPE E of None \<Rightarrow> ''postgresql''
               | Some t \<Rightarrow> if t = [] then ''postgresql'' else t)"

definition database_query :: "env \<Rightarrow> string \<Rightarrow> error + db_result" where
  "database_query E text =
     (if dbType E = ''postgresql'' \<or> dbType E = ''mysql'' then pool_query E text
      else Inl (Error (''Unsupported database type: '' @ dbType E)))"

section \<open>The pagination rewriter\<close>

definition strip_semicolons :: "string \<Rightarrow> string" where
  \<comment> \<open>\<open>s.replace(/;+$/, '')\<close>\<close>
  "strip_semicolons s = rev (dropWhile (\<lambda>c. c = CHR '';'') (rev s))"

text \<open>
  \<open>limitRegex\<close> is \<open>/\s+LIMIT\s+(\d+)(\s+OFFSET\s+\d+)?$/i\<close>. \<open>limit_at\<close> matches it from the
  head of a text to the text's end and gives group 1. Each repetition takes its longest
  run: what follows \<open>\s+\<close> is a letter or a digit and what follows \<open>\d+\<close> is white space or the
  end, so no shorter run can match. \<open>limit_match\<close> is the leftmost match: the text
  before it and group 1.
\<close>

definition offset_tail :: "string \<Rightarrow> bool" where
  "offset_tail s =
     (let r1 = dropWhile is_space s; r2 = drop 6 r1; r3 = dropWhile is_space r2
      in r1 \<noteq> s \<and> ci_prefix ''offset'' r1 \<and> r3 \<noteq> r2 \<and> r3 \<noteq> [] \<and> list_all is_digit r3)"

definition limit_at :: "string \<Rightarrow> string option" where
  "limit_at s =
     (let r1 = dropWhile is_space s; r2 = drop 5 r1; r3 = dropWhile is_space r2;
          ds = takeWhile is_digit r3; r4 = dropWhile is_digit r3
      in if r1 \<noteq> s \<and> ci_prefix ''limit'' r1 \<and> r3 \<noteq> r2 \<and> ds \<noteq> [] \<and> (r4 = [] \<or> offset_tail r4)
         then Some ds else None)"

fun limit_match :: "string \<Rightarrow> (string \<times> string) option" where
  "limit_match [] = None"
| "limit_match (c # cs) =
     (case limit_at (c # cs) of
        Some ds \<Rightarrow> Some ([], ds)
      | None \<Rightarrow> map_option (\<lambda>(before, ds). (c # before, ds)) (limit_match cs))"

definition addPaginationToSQL :: "env \<Rightarrow> string \<Rightarrow> jsnum \<Rightarrow> jsnum \<Rightarrow> string" where
  "addPaginationToSQL E sql limit offset =
     (let cleanSQL = strip_semicolons (trim sql);
          limitMatch = limit_match cleanSQL;
          finalLimit = (case limitMatch of
                          Some (before, ds) \<Rightarrow> num_min (parseInt_string ds) limit
                        | None \<Rightarrow> limit);
          cleanSQL = (case limitMatch of Some (before, ds) \<Rightarrow> before | None \<Rightarrow> cleanSQL)
      in if dbType E = ''postgresql''
         then cleanSQL @ '' LIMIT '' @ string_of_num finalLimit @ '' OFFSET '' @ string_of_num offset
         else cleanSQL @ '' LIMIT '' @ string_of_num offset @ '', '' @ string_of_num finalLimit)"


section \<open>The key-value store\<close>

text \<open>
  The wrapper around the Redis client (\<open>config/redis.js\<close>). The store holds the raw
  strings in Redis. \<open>client_fails\<close> says that the client library rejects the commands
  sent to it (a lost connection, a timeout). Expiry is not modelled: a stored entry
  stays until it is deleted or overwritten.
\<close>

record redis_state =
  isConnected :: bool
  client_fails :: bool
  store :: "string \<rightharpoonup> string"

definition redis_get :: "env \<Rightarrow> string \<Rightarrow> redis_state \<Rightarrow> jsval \<times> redis_state" where
  "redis_get E key r =
     (if \<not> isConnected r then (JNull, r)
      else if client_fails r then (JNull, r)
      else case store r key of
             None \<Rightarrow> (JNull, r)
           | Some v \<Rightarrow>
               if v = [] then (JNull, r)
               else (case JSON_parse E v of
                       Some j \<Rightarrow> (j, r)
                     | None \<Rightarrow> (JNull, r\<lparr>store := (store r)(key := None)\<rparr>)))"

definition redis_set :: "env \<Rightarrow> string \<Rightarrow> jsval \<Rightarrow> int \<Rightarrow> redis_state \<Rightarrow> bool \<times> redis_state" where
  \<comment> \<open>\<open>SETEX\<close> rejects an expiry that is not positive\<close>
  "redis_set E key v ttl r =
     (if \<not> isConnected r then (False, r)
      else if client_fails r \<or> ttl \<le> 0 then (False, r)
      else case JSON_stringify E v of
             None \<Rightarrow> (False, r)
           | Some text \<Rightarrow> (True, r\<lparr>store := (store r)(key \<mapsto> text)\<rparr>))"

definition redis_del :: "string \<Rightarrow> redis_state \<Rightarrow> bool \<times> redis_state" where
  "redis_del key r =
     (if \<not> isConnected r then (False, r)
      else if client_fails r then (False, r)
      else (True, r\<lparr>store := (store r)(key := None)\<rparr>))"

section \<open>The cache layer\<close>

record metrics =
  hits :: nat
  misses :: nat
  errors :: nat
  totalRequests :: nat

record state =
  redis :: redis_state
  metrics :: metrics

record get_options =
  fallback :: jsval
  trackMetrics :: bool
  parseJSON :: bool

definition default_get_options :: get_options where
  "default_get_options = \<lparr>fallback = JNull, trackMetrics = True, parseJSON = True\<rparr>"

definition count_hit :: "bool \<Rightarrow> state \<Rightarrow> state" where
  \<comment> \<open>\<open>if (trackMetrics) this.metrics.hits++\<close>\<close>
  "count_hit track s = (if track then s\<lparr>metrics := (metrics s)\<lparr>hits := hits (metrics s) + 1\<rparr>\<rparr> else s)"

definition count_miss :: "bool \<Rightarrow> state \<Rightarrow> state" where
  "count_miss track s =
     (if track then s\<lparr>metrics := (metrics s)\<lparr>misses := misses (metrics s) + 1\<rparr>\<rparr> else s)"

definition count_error :: "bool \<Rightarrow> state \<Rightarrow> state" where
  "count_error track s =
     (if track then s\<lparr>metrics := (metrics s)\<lparr>errors := errors (metrics s) + 1\<rparr>\<rparr> else s)"

definition count_request :: "state \<Rightarrow> state" where
  \<comment> \<open>\<open>this.metrics.totalRequests++\<close>\<close>
  "count_request s = s\<lparr>metrics := (metrics s)\<lparr>totalRequests := totalRequests (metrics s) + 1\<rparr>\<rparr>"

definition this_del :: "string \<Rightarrow> state \<Rightarrow> (error + unit) \<times> state" where
  \<comment> \<open>\<open>await this.del(key)\<close> in \<open>get\<close>: the class \<open>CacheService\<close> declares \<open>get\<close>, \<open>set\<close>,
      \<open>getOrSet\<close>, \<open>mget\<close>, \<open>mset\<close>, \<open>delPattern\<close>, \<open>getStats\<close>, \<open>resetStats\<close>, \<open>warmCache\<close> and
      \<open>healthCheck\<close>, and no member \<open>del\<close>, so the call raises a TypeError\<close>
  "this_del key s = (Inl (Error ''this.del is not a function''), s)"

definition cacheService_get_try :: "env \<Rightarrow> string \<Rightarrow> get_options \<Rightarrow> state \<Rightarrow> (error + jsval) \<times> state" where
  \<comment> \<open>the \<open>try\<close> block of \<open>get\<close>\<close>
  "cacheService_get_try E key opts s0 =
     (let (v, r) = redis_get E key (redis s0); s1 = s0\<lparr>redis := r\<rparr> in
      if v \<noteq> JNull then
        let s2 = count_hit (trackMetrics opts) s1 in
        (case v of
           JStr text \<Rightarrow>
             if parseJSON opts then
               (case JSON_parse E text of
                  Some j \<Rightarrow> (Inr j, s2)
                | None \<Rightarrow>
                    (case this_del key s2 of
                       (Inl e, s3) \<Rightarrow> (Inl e, s3)
                     | (Inr u, s3) \<Rightarrow> (Inr (fallback opts), count_error (trackMetrics opts) s3)))
             else (Inr v, s2)
         | _ \<Rightarrow> (Inr v, s2))
      else (Inr (fallback opts), count_miss (trackMetrics opts) s1))"

definition cacheService_get :: "env \<Rightarrow> string \<Rightarrow> get_options \<Rightarrow> state \<Rightarrow> jsval \<times> state" where
  "cacheService_get E key opts s =
     (case cacheService_get_try E key opts (count_request s) of
        (Inr v, s') \<Rightarrow> (v, s')
      | (Inl e, s') \<Rightarrow> (fallback opts, count_error (trackMetrics opts) s'))"

record set_options =
  compress :: bool
  maxSize :: int
  stringifyJSON :: bool

definition default_set_options :: set_options where
  "default_set_options = \<lparr>compress = False, maxSize = 1024 * 1024, stringifyJSON = True\<rparr>"

fun js_length :: "jsval \<Rightarrow> error + int option" where
  \<comment> \<open>\<open>v.length\<close>; \<open>None\<close> is \<open>undefined\<close>, which is not greater than any number\<close>
  "js_length JUndefined = Inl (Error ''Cannot read properties of undefined'')"
| "js_length JNull = Inl (Error ''Cannot read properties of null'')"
| "js_length (JStr s) = Inr (Some (int (length s)))"
| "js_length (JArr xs) = Inr (Some (int (length xs)))"
| "js_length v = Inr None"

fun gzipSync_base64 :: "env \<Rightarrow> jsval \<Rightarrow> error + jsval" where
  \<comment> \<open>\<open>zlib.gzipSync(v).toString('base64')\<close>: only a string has a gzip form here\<close>
  "gzipSync_base64 E (JStr s) = Inr (JStr (gzip_base64 E s))"
| "gzipSync_base64 E v = Inl (Error ''The chunk argument must be of type string'')"

definition cacheService_set ::
  "env \<Rightarrow> string \<Rightarrow> jsval \<Rightarrow> int \<Rightarrow> set_options \<Rightarrow> state \<Rightarrow> bool \<times> state" where
  \<comment> \<open>with \<open>stringifyJSON\<close> off the value itself is stored: a string, an array, a number, a
      boolean or an object that has no property \<open>length\<close> of its own\<close>
  "cacheService_set E key v ttl opts s =
     (case (if stringifyJSON opts then map_option JStr (JSON_stringify E v) else Some v) of
        None \<Rightarrow> (False, s)
      | Some serializedValue \<Rightarrow>
          (case js_length serializedValue of
             Inl e \<Rightarrow> (False, s)
           | Inr len \<Rightarrow>
               if (case len of None \<Rightarrow> False | Some n \<Rightarrow> n > maxSize opts) then
                 (if compress opts then
                    (case gzipSync_base64 E serializedValue of
                       Inl e \<Rightarrow> (False, s)
                     | Inr compressed \<Rightarrow>
                         (let (ok, r) = redis_set E (key @ '':compressed'') compressed ttl (redis s)
                          in (True, s\<lparr>redis := r\<rparr>)))
                  else (False, s))
               else (let (ok, r) = redis_set E key serializedValue ttl (redis s)
                     in (True, s\<lparr>redis := r\<rparr>))))"


section \<open>The executor\<close>

record pagination =
  page :: jsnum
  pageSize :: jsnum
  totalRows :: jsnum
  totalPages :: jsnum
  hasNextPage :: bool
  hasPreviousPage :: bool

record field_info =
  field_name :: jsval
  field_type :: jsval

record metadata =
  executionTime :: int
  rowCount :: nat
  fieldInfos :: "field_info list"

record query_result =
  rows :: "jsval list"
  pagination :: pagination
  metadata :: metadata
  fromCache :: bool

definition cachePrefix :: string where "cachePrefix = ''query:result:''"
definition cacheTTL :: int where "cacheTTL = 300"
definition defaultPageSize :: int where "defaultPageSize = 50"

definition js_or :: "jsval \<Rightarrow> jsval \<Rightarrow> jsval" where
  \<comment> \<open>\<open>a || b\<close>\<close>
  "js_or a b = (if truthy a then a else b)"

definition count_statement :: "string \<Rightarrow> string" where
  \<comment> \<open>\<open>countSQL\<close> in \<open>getTotalCount\<close>\<close>
  "count_statement originalSQL =
     (let cleanSQL = strip_semicolons (trim originalSQL)
      in ''SELECT COUNT(*) as total_count FROM ('' @ cleanSQL @ '') as count_query'')"

definition getTotalCount_try :: "env \<Rightarrow> string \<Rightarrow> error + jsnum" where
  \<comment> \<open>the \<open>try\<close> block of \<open>getTotalCount\<close>\<close>
  "getTotalCount_try E originalSQL =
     (let countSQL = count_statement originalSQL
      in case database_query E countSQL of
           Inl e \<Rightarrow> Inl e
         | Inr result \<Rightarrow>
             (let row0 = (case db_rows result of [] \<Rightarrow> JUndefined | row # others \<Rightarrow> row) in
              case get_prop row0 ''total_count'' of
                Inl e \<Rightarrow> Inl e
              | Inr a \<Rightarrow>
                  if truthy a then Inr (parseInt a)
                  else (case get_prop row0 ''TOTAL_COUNT'' of
                          Inl e \<Rightarrow> Inl e
                        | Inr b \<Rightarrow> Inr (parseInt (js_or b (JNum 0))))))"

definition getTotalCount :: "env \<Rightarrow> string \<Rightarrow> jsnum" where
  "getTotalCount E originalSQL =
     (case getTotalCount_try E originalSQL of Inl e \<Rightarrow> Num 0 | Inr n \<Rightarrow> n)"

fun map_fields :: "jsval list \<Rightarrow> error + field_info list" where
  \<comment> \<open>\<open>fields.map(field => ({ name: field.name, type: field.dataTypeID || field.type }))\<close>\<close>
  "map_fields [] = Inr []"
| "map_fields (f # fs) =
     (case get_prop f ''name'' of
        Inl e \<Rightarrow> Inl e
      | Inr n \<Rightarrow>
          (case get_prop f ''dataTypeID'' of
             Inl e \<Rightarrow> Inl e
           | Inr d \<Rightarrow>
               (case get_prop f ''type'' of
                  Inl e \<Rightarrow> Inl e
                | Inr t \<Rightarrow>
                    (case map_fields fs of
                       Inl e \<Rightarrow> Inl e
                     | Inr rest \<Rightarrow> Inr (\<lparr>field_name = n, field_type = js_or d t\<rparr> # rest)))))"

fun ceil_div :: "jsnum \<Rightarrow> jsnum \<Rightarrow> jsnum" where
  \<comment> \<open>\<open>Math.ceil(totalCount / pageSize)\<close>; the page size is \<open>NaN\<close> or within \<open>[1,100]\<close>
      where the executor divides by it\<close>
  "ceil_div (Num t) (Num p) = Num (- ((- t) div p))"
| "ceil_div t p = NaN"

definition clamp_page :: "jsnum \<Rightarrow> jsnum" where
  \<comment> \<open>\<open>if (page < 1) page = 1\<close>\<close>
  "clamp_page page0 = (if num_less page0 (Num 1) then Num 1 else page0)"

definition clamp_pageSize :: "jsnum \<Rightarrow> jsnum" where
  \<comment> \<open>\<open>if (pageSize < 1 || pageSize > 100) pageSize = this.defaultPageSize\<close>\<close>
  "clamp_pageSize pageSize0 =
     (if num_less pageSize0 (Num 1) \<or> num_less (Num 100) pageSize0 then Num defaultPageSize
      else pageSize0)"

definition executeWithPagination_try ::
  "env \<Rightarrow> string \<Rightarrow> jsnum \<Rightarrow> jsnum \<Rightarrow> string \<Rightarrow> error + query_result" where
  \<comment> \<open>the \<open>try\<close> block of \<open>executeWithPagination\<close>, for the clamped page and page size and
      the rewritten statement\<close>
  "executeWithPagination_try E sql page1 pageSize1 paginatedSQL =
     (case database_query E paginatedSQL of
        Inl e \<Rightarrow> Inl e
      | Inr result \<Rightarrow>
          (let totalCount = getTotalCount E sql in
           case (case db_fields result of None \<Rightarrow> Inr [] | Some fs \<Rightarrow> map_fields fs) of
             Inl e \<Rightarrow> Inl e
           | Inr infos \<Rightarrow>
               Inr \<lparr>rows = db_rows result,
                    pagination = \<lparr>page = page1, pageSize = pageSize1,
                      totalRows = totalCount,
                      totalPages = ceil_div totalCount pageSize1,
                      hasNextPage = num_less page1 (ceil_div totalCount pageSize1),
                      hasPreviousPage = num_less (Num 1) page1\<rparr>,
                    metadata = \<lparr>executionTime = elapsed E,
                      rowCount = length (db_rows result),
                      fieldInfos = infos\<rparr>,
                    fromCache = False\<rparr>))"

definition executeWithPagination ::
  "env \<Rightarrow> string \<Rightarrow> jsnum \<Rightarrow> jsnum \<Rightarrow> error + query_result" where
  "executeWithPagination E sql page0 pageSize0 =
     (let page1 = clamp_page page0;
          pageSize1 = clamp_pageSize pageSize0;
          offset = num_times (num_minus page1 (Num 1)) pageSize1;
          paginatedSQL = addPaginationToSQL E sql pageSize1 offset
      in case executeWithPagination_try E sql page1 pageSize1 paginatedSQL of
           Inl (Error message) \<Rightarrow> Inl (Error (''Query execution failed: '' @ message))
         | Inr r \<Rightarrow> Inr r)"

section \<open>The plan analyzer\<close>

record cost =
  startupCost :: jsval
  totalCost :: jsval
  estimatedRows :: jsval

record explain_result =
  explainPlan :: jsval
  isValid :: bool
  estimatedCost :: "cost option"
  error_message :: "string option"
  warnings :: "string list"

definition default_cost :: cost where
  \<comment> \<open>\<open>{ estimatedRows: 0, totalCost: 0 }\<close>\<close>
  "default_cost = \<lparr>startupCost = JUndefined, totalCost = JNum 0, estimatedRows = JNum 0\<rparr>"

definition optional_prop :: "jsval \<Rightarrow> string \<Rightarrow> error + jsval" where
  \<comment> \<open>\<open>v?.name\<close>\<close>
  "optional_prop v name = (if v = JUndefined \<or> v = JNull then Inr JUndefined else get_prop v name)"

definition extractCostFromPlan_try :: "env \<Rightarrow> jsval list \<Rightarrow> error + cost" where
  \<comment> \<open>the outer \<open>try\<close> block of \<open>extractCostFromPlan\<close>\<close>
  "extractCostFromPlan_try E planRows =
     (case planRows of
        [] \<Rightarrow> Inr default_cost
      | row # others \<Rightarrow>
          (case (case row of JStr text \<Rightarrow> JSON_parse E text | _ \<Rightarrow> Some row) of
             None \<Rightarrow> Inr default_cost
           | Some plan \<Rightarrow>
               (case get_prop plan ''Plan'' of
                  Inl e \<Rightarrow> Inl e
                | Inr pl \<Rightarrow>
                    if truthy pl then
                      (case (get_prop pl ''Startup Cost'', get_prop pl ''Total Cost'',
                             get_prop pl ''Plan Rows'') of
                         (Inr sc, Inr tc, Inr pr) \<Rightarrow>
                           Inr \<lparr>startupCost = sc, totalCost = tc, estimatedRows = pr\<rparr>
                       | _ \<Rightarrow> Inl (Error ''Cannot read properties''))
                    else
                      (case get_prop plan ''query_block'' of
                         Inl e \<Rightarrow> Inl e
                       | Inr qb \<Rightarrow>
                           if truthy qb then
                             (case get_prop qb ''cost_info'' of
                                Inl e \<Rightarrow> Inl e
                              | Inr ci \<Rightarrow>
                                  (case (optional_prop ci ''read_cost'', optional_prop ci ''eval_cost'') of
                                     (Inr rc, Inr ec) \<Rightarrow>
                                       Inr \<lparr>startupCost = JUndefined,
                                            totalCost = js_or ec (JNum 0),
                                            estimatedRows = js_or rc (JNum 0)\<rparr>
                                   | _ \<Rightarrow> Inl (Error ''Cannot read properties'')))
                           else Inr default_cost))))"

definition extractCostFromPlan :: "env \<Rightarrow> jsval list \<Rightarrow> cost" where
  "extractCostFromPlan E planRows =
     (case extractCostFromPlan_try E planRows of Inl e \<Rightarrow> default_cost | Inr c \<Rightarrow> c)"

definition analyzeExecutionPlan :: "env \<Rightarrow> jsval list \<Rightarrow> string list" where
  \<comment> \<open>a failing \<open>JSON.stringify\<close> leaves the list of warnings empty\<close>
  "analyzeExecutionPlan E planRows =
     (case JSON_stringify E (JArr planRows) of
        None \<Rightarrow> []
      | Some text \<Rightarrow>
          (let planText = toLowerCase text in
           (if includes_str ''seq scan'' planText \<or> includes_str ''table scan'' planText
            then [''Query performs full table scan - consider adding indexes''] else []) @
           (if includes_str ''nested loop'' planText \<and> includes_str ''large'' planText
            then [''Query uses nested loops on large datasets - performance may be slow'']
            else []) @
           (if includes_str ''sort'' planText \<and> includes_str ''disk'' planText
            then [''Query requires disk-based sorting - consider optimizing''] else [])))"

definition explain_statement :: "env \<Rightarrow> string \<Rightarrow> error + string" where
  \<comment> \<open>\<open>explainSQL\<close> in \<open>explainQuery\<close>, or the error raised for another database type\<close>
  "explain_statement E sql =
     (if dbType E = ''postgresql'' then Inr (''EXPLAIN (FORMAT JSON, ANALYZE false) '' @ sql)
      else if dbType E = ''mysql'' then Inr (''EXPLAIN FORMAT=JSON '' @ sql)
      else Inl (Error (''Explain not supported for database type: '' @ dbType E)))"

definition explainQuery_try :: "env \<Rightarrow> string \<Rightarrow> error + explain_result" where
  \<comment> \<open>the \<open>try\<close> block of \<open>explainQuery\<close>\<close>
  "explainQuery_try E sql =
     (case explain_statement E sql of
        Inl e \<Rightarrow> Inl e
      | Inr explainSQL \<Rightarrow>
          (case database_query E explainSQL of
             Inl e \<Rightarrow> Inl e
           | Inr result \<Rightarrow>
               Inr \<lparr>explainPlan = JArr (db_rows result),
                    isValid = True,
                    estimatedCost = Some (extractCostFromPlan E (db_rows result)),
                    error_message = None,
                    warnings = analyzeExecutionPlan E (db_rows result)\<rparr>))"

definition explainQuery :: "env \<Rightarrow> string \<Rightarrow> error + explain_result" where
  \<comment> \<open>the \<open>catch\<close> block returns; nothing in it can raise\<close>
  "explainQuery E sql =
     (case explainQuery_try E sql of
        Inr r \<Rightarrow> Inr r
      | Inl (Error message) \<Rightarrow>
          Inr \<lparr>explainPlan = JNull, isValid = False, estimatedCost = None,
               error_message = Some message, warnings = [''Query validation failed'']\<rparr>)"


section \<open>The entry point\<close>

record exec_options =
  opt_page :: jsnum
  opt_pageSize :: jsnum
  useCache :: bool
  dryRun :: bool

definition default_exec_options :: exec_options where
  "default_exec_options =
     \<lparr>opt_page = Num 1, opt_pageSize = Num defaultPageSize, useCache = True, dryRun = False\<rparr>"

text \<open>
  What \<open>executeQuery\<close> returns: a fresh result, the explain result of a dry run, or
  \<open>Cached c\<close>, which stands for the object \<open>{ ...c, fromCache: true }\<close> built from the
  cached value \<open>c\<close>.
\<close>

datatype response = Result query_result | Cached jsval | Explained explain_result

definition generateCacheKey :: "env \<Rightarrow> string \<Rightarrow> jsnum \<Rightarrow> jsnum \<Rightarrow> string" where
  "generateCacheKey E sql p n =
     cachePrefix @ md5_hex E (sql @ '':'' @ string_of_num p @ '':'' @ string_of_num n)"

definition jsval_of_result :: "query_result \<Rightarrow> jsval" where
  \<comment> \<open>the result object as the value handed to the cache\<close>
  "jsval_of_result r =
     JObj [(''rows'', JArr (rows r)),
           (''pagination'', JObj [(''page'', jsval_of_num (page (pagination r))),
              (''pageSize'', jsval_of_num (pageSize (pagination r))),
              (''totalRows'', jsval_of_num (totalRows (pagination r))),
              (''totalPages'', jsval_of_num (totalPages (pagination r))),
              (''hasNextPage'', JBool (hasNextPage (pagination r))),
              (''hasPreviousPage'', JBool (hasPreviousPage (pagination r)))]),
           (''metadata'', JObj [(''executionTime'', JNum (executionTime (metadata r))),
              (''rowCount'', JNum (int (rowCount (metadata r)))),
              (''fields'', JArr (map (\<lambda>f. JObj [(''name'', field_name f), (''type'', field_type f)])
                                   (fieldInfos (metadata r))))]),
           (''fromCache'', JBool (fromCache r))]"

definition executeQuery ::
  "env \<Rightarrow> string \<Rightarrow> exec_options \<Rightarrow> state \<Rightarrow> (error + response) \<times> state" where
  \<comment> \<open>the \<open>catch\<close> block logs and raises the same error again\<close>
  "executeQuery E sql opts s =
     (case validateQuery sql of
        Inl e \<Rightarrow> (Inl e, s)
      | Inr u \<Rightarrow>
          (let (cachedResult, s1) =
                 (if useCache opts \<and> \<not> dryRun opts
                  then cacheService_get E
                         (generateCacheKey E sql (opt_page opts) (opt_pageSize opts))
                         default_get_options s
                  else (JNull, s))
           in if useCache opts \<and> \<not> dryRun opts \<and> truthy cachedResult
              then (Inr (Cached cachedResult), s1)
              else if dryRun opts then
                (case explainQuery E sql of
                   Inl e \<Rightarrow> (Inl e, s1)
                 | Inr r \<Rightarrow> (Inr (Explained r), s1))
              else
                (case executeWithPagination E sql (opt_page opts) (opt_pageSize opts) of
                   Inl e \<Rightarrow> (Inl e, s1)
                 | Inr result \<Rightarrow>
                     if useCache opts \<and> rows result \<noteq> [] then
                       (let (ok, s2) =
                              cacheService_set E
                                (generateCacheKey E sql (opt_page opts) (opt_pageSize opts))
                                (jsval_of_result result) cacheTTL default_set_options s1
                        in (Inr (Result result), s2))
                     else (Inr (Result result), s1))))"

section \<open>The validator's rules in the words of the specification\<close>

text \<open>
  A text contains a keyword as a case-insensitive whole word when the keyword occurs in
  it, letter case apart, with no word character next to the occurrence on either side.
\<close>

definition contains_whole_word :: "string \<Rightarrow> string \<Rightarrow> bool" where
  "contains_whole_word kw s =
     (\<exists>pre mid post. s = pre @ mid @ post \<and> map canonicalize mid = map canonicalize kw \<and>
        (pre = [] \<or> \<not> is_word_char (last pre)) \<and> (post = [] \<or> \<not> is_word_char (hd post)))"

definition plain_word :: "string \<Rightarrow> bool" where
  \<comment> \<open>a keyword made of word characters only\<close>
  "plain_word kw = (kw \<noteq> [] \<and> list_all is_word_char kw)"

text \<open>
  The injection shapes: a semicolon, optional white space and a mutating keyword; \<open>UNION\<close>,
  white space and \<open>SELECT\<close>; a block comment that opens and closes on one line; two
  dashes and a white-space character; a hash sign.
\<close>

definition has_hash :: "string \<Rightarrow> bool" where
  "has_hash s = (CHR 0x23 \<in> set s)"

definition has_dashes_space :: "string \<Rightarrow> bool" where
  "has_dashes_space s = (\<exists>pre c post. s = pre @ ''--'' @ c # post \<and> is_space c)"

definition has_block_comment :: "string \<Rightarrow> bool" where
  "has_block_comment s =
     (\<exists>pre mid post. s = pre @ ''/*'' @ mid @ ''*/'' @ post \<and>
        (\<forall>c \<in> set mid. \<not> is_line_terminator c))"

definition has_union_select :: "string \<Rightarrow> bool" where
  "has_union_select s =
     (\<exists>pre u ws sel post. s = pre @ u @ ws @ sel @ post \<and>
        map canonicalize u = map canonicalize ''union'' \<and> ws \<noteq> [] \<and> list_all is_space ws \<and>
        map canonicalize sel = map canonicalize ''select'')"

definition has_semicolon_keyword :: "string \<Rightarrow> bool" where
  "has_semicolon_keyword s =
     (\<exists>pre ws w post kw. s = pre @ '';'' @ ws @ w @ post \<and> list_all is_space ws \<and>
        kw \<in> set mutating_words \<and> map canonicalize w = map canonicalize kw)"

definition injection_shape :: "string \<Rightarrow> bool" where
  "injection_shape s =
     (has_semicolon_keyword s \<or> has_union_select s \<or> has_block_comment s \<or>
      has_dashes_space s \<or> has_hash s)"

text \<open>
  A trailing limit clause: the cleaned statement is a body, which does not end in white
  space, followed by white space, \<open>LIMIT\<close>, white space and digits, and then nothing or
  white space, \<open>OFFSET\<close>, white space and digits; letter case does not count.
\<close>

definition spaces :: "string \<Rightarrow> bool" where
  "spaces w = (w \<noteq> [] \<and> list_all is_space w)"

definition digits :: "string \<Rightarrow> bool" where
  "digits ds = (ds \<noteq> [] \<and> list_all is_digit ds)"

definition same_word :: "string \<Rightarrow> string \<Rightarrow> bool" where
  "same_word w kw = (map canonicalize w = map canonicalize kw)"

definition offset_clause :: "string \<Rightarrow> bool" where
  "offset_clause t =
     (\<exists>w3 off w4 ds2. t = w3 @ off @ w4 @ ds2 \<and> spaces w3 \<and> same_word off ''offset'' \<and>
        spaces w4 \<and> digits ds2)"

definition limit_clause :: "string \<Rightarrow> string \<Rightarrow> bool" where
  "limit_clause t ds =
     (\<exists>w1 lim w2 tail. t = w1 @ lim @ w2 @ ds @ tail \<and> spaces w1 \<and> same_word lim ''limit'' \<and>
        spaces w2 \<and> digits ds \<and> (tail = [] \<or> offset_clause tail))"

definition trailing_limit :: "string \<Rightarrow> string \<Rightarrow> string \<Rightarrow> bool" where
  "trailing_limit clean body ds =
     (\<exists>t. clean = body @ t \<and> limit_clause t ds \<and> (body = [] \<or> \<not> is_space (last body)))"

text \<open>The words of a text, which its white space separates; they serve the proofs only.\<close>

fun splitw :: "string \<Rightarrow> string list" where
  "splitw [] = [[]]"
| "splitw (c # cs) =
     (if is_space c then [] # splitw cs
      else (case splitw cs of [] \<Rightarrow> [[c]] | w # ws \<Rightarrow> (c # w) # ws))"

definition words_of :: "string \<Rightarrow> string list" where
  "words_of s = filter (\<lambda>w. w \<noteq> []) (splitw s)"

definition solid :: "string \<Rightarrow> bool" where
  "solid w = (w \<noteq> [] \<and> (\<forall>c \<in> set w. \<not> is_space c))"

section \<open>A concrete environment\<close>

text \<open>
  The examples below run the code in one environment. \<open>JSON_text\<close> prints a value as
  \<open>JSON.stringify\<close> does. \<open>JSON_parse_scalar\<close> reads a JSON text that is a single \<open>null\<close>,
  \<open>true\<close>, \<open>false\<close>, unsigned integer or string without escapes, and gives \<open>None\<close> on any
  other text; on the texts that the examples parse (the quoted string \<open>hello\<close>, the bare
  word \<open>hello\<close>, the number \<open>7\<close>) that is the answer of \<open>JSON.parse\<close>. The digest and the
  compression are stand-ins that leave their argument readable. The database knows one
  table.
\<close>

definition dquote :: char where "dquote = CHR 0x22"
definition backslash :: char where "backslash = CHR 0x5C"

definition hex_char :: "nat \<Rightarrow> char" where
  "hex_char d = (if d < 10 then char_of (48 + d) else char_of (87 + d))"

definition escape_char :: "char \<Rightarrow> string" where
  "escape_char c = (let n = of_char c :: nat in
     if c = dquote \<or> c = backslash then [backslash, c]
     else if n = 8 then [backslash, CHR ''b'']
     else if n = 9 then [backslash, CHR ''t'']
     else if n = 10 then [backslash, CHR ''n'']
     else if n = 12 then [backslash, CHR ''f'']
     else if n = 13 then [backslash, CHR ''r'']
     else if n < 32 then [backslash, CHR ''u'', CHR ''0'', CHR ''0'', hex_char (n div 16), hex_char (n mod 16)]
     else [c])"

definition quoted :: "string \<Rightarrow> string" where
  "quoted s = dquote # concat (map escape_char s) @ [dquote]"

fun join_commas :: "string list \<Rightarrow> string" where
  "join_commas [] = []"
| "join_commas [x] = x"
| "join_commas (x # y # zs) = x @ '','' @ join_commas (y # zs)"

fun JSON_text :: "jsval \<Rightarrow> string" where
  "JSON_text (JBool b) = (if b then ''true'' else ''false'')"
| "JSON_text (JNum n) = string_of_int n"
| "JSON_text (JStr s) = quoted s"
| "JSON_text (JArr xs) = ''['' @ join_commas (map JSON_text xs) @ '']''"
| "JSON_text (JObj kvs) =
     ''{'' @ join_commas (map (\<lambda>kv. quoted (fst kv) @ '':'' @ JSON_text (snd kv))
                              (filter (\<lambda>kv. snd kv \<noteq> JUndefined) kvs)) @ ''}''"
| "JSON_text v = ''null''"

definition plain_char :: "char \<Rightarrow> bool" where
  \<comment> \<open>a code unit that a JSON string holds as it is\<close>
  "plain_char c = (c \<noteq> dquote \<and> c \<noteq> backslash \<and> (32::nat) \<le> of_char c)"

definition JSON_parse_scalar :: "string \<Rightarrow> jsval option" where
  "JSON_parse_scalar t =
     (if t = ''null'' then Some JNull
      else if t = ''true'' then Some (JBool True)
      else if t = ''false'' then Some (JBool False)
      else if t \<noteq> [] \<and> list_all is_digit t \<and> (length t = 1 \<or> \<not> startsWith ''0'' t)
      then Some (JNum (digits_value 10 t))
      else if 2 \<le> length t \<and> startsWith [dquote] t \<and> last t = dquote \<and>
              list_all plain_char (butlast (tl t))
      then Some (JStr (butlast (tl t)))
      else None)"

definition users_pool :: "string \<Rightarrow> error + db_result" where
  \<comment> \<open>a database that answers the first page of \<open>SELECT id FROM users\<close> and the explain
      statement for it, and rejects every other statement, the count statement included\<close>
  "users_pool text =
     (if text = ''SELECT id FROM users LIMIT 50 OFFSET 0''
      then Inr \<lparr>db_rows = [JObj [(''id'', JNum 1)], JObj [(''id'', JNum 2)]],
                db_fields = Some [JObj [(''name'', JStr ''id''), (''dataTypeID'', JNum 23)]]\<rparr>
      else if text = ''EXPLAIN (FORMAT JSON, ANALYZE false) SELECT id FROM users''
      then Inr \<lparr>db_rows = [JObj [(''Plan'', JObj [(''Node Type'', JStr ''Seq Scan''),
                   (''Startup Cost'', JNum 0), (''Total Cost'', JNum 35), (''Plan Rows'', JNum 2550)])]],
                db_fields = None\<rparr>
      else Inl (Error ''statement rejected''))"

definition demo_env :: env where
  "demo_env =
     \<lparr>DB_TYPE = None, pool_query = users_pool, JSON_parse = JSON_parse_scalar,
      JSON_stringify = (\<lambda>v. if v = JUndefined then None else Some (JSON_text v)),
      md5_hex = (\<lambda>text. text), gzip_base64 = (\<lambda>text. ''gz'' @ text), elapsed = 7\<rparr>"

definition sqlite_env :: env where
  \<comment> \<open>the same environment, configured for a database type that the explain path does
      not know\<close>
  "sqlite_env = demo_env\<lparr>DB_TYPE := Some ''sqlite''\<rparr>"

definition mysql_env :: env where
  \<comment> \<open>the same environment, configured for MySQL\<close>
  "mysql_env = demo_env\<lparr>DB_TYPE := Some ''mysql''\<rparr>"

definition fresh_state :: state where
  \<comment> \<open>a connected, empty store and counters at zero\<close>
  "fresh_state =
     \<lparr>redis = \<lparr>isConnected = True, client_fails = False, store = Map.empty\<rparr>,
      metrics = \<lparr>hits = 0, misses = 0, errors = 0, totalRequests = 0\<rparr>\<rparr>"

definition greeting_state :: state where
  \<comment> \<open>the store holds the JSON text of the string \<open>hello\<close>, as
      \<open>set('greeting', 'hello', 60, { stringifyJSON: false })\<close> leaves it\<close>
  "greeting_state =
     \<lparr>redis = \<lparr>isConnected = True, client_fails = False,
               store = [''greeting'' \<mapsto> quoted ''hello'']\<rparr>,
      metrics = \<lparr>hits = 0, misses = 0, errors = 0, totalRequests = 0\<rparr>\<rparr>"

definition page0_options :: exec_options where
  \<comment> \<open>a request for page 0 with 500 rows a page\<close>
  "page0_options = \<lparr>opt_page = Num 0, opt_pageSize = Num 500, useCache = True, dryRun = False\<rparr>"

definition stale_state :: state where
  \<comment> \<open>the store holds the JSON text of the number 7 under the key of page 0 with page
      size 500\<close>
  "stale_state =
     \<lparr>redis = \<lparr>isConnected = True, client_fails = False,
               store = [''query:result:SELECT id FROM users:0:500'' \<mapsto> ''7'']\<rparr>,
      metrics = \<lparr>hits = 0, misses = 0, errors = 0, totalRequests = 0\<rparr>\<rparr>"

definition compressing_options :: set_options where
  \<comment> \<open>compression on, with a size threshold of five code units\<close>
  "compressing_options = \<lparr>compress = True, maxSize = 5, stringifyJSON = True\<rparr>"

definition report_state :: state where
  \<comment> \<open>the state that \<open>set('report', 7, 300)\<close> leaves: an entry under the key \<open>report\<close>\<close>
  "report_state =
     snd (cacheService_set demo_env ''report'' (JNum 7) 300 default_set_options fresh_state)"

section \<open>Paths of the cache read\<close>

definition found :: "env \<Rightarrow> string \<Rightarrow> state \<Rightarrow> bool" where
  \<comment> \<open>the store wrapper hands a value to \<open>get\<close>\<close>
  "found E key s = (fst (redis_get E key (redis s)) \<noteq> JNull)"

definition undecodable :: "env \<Rightarrow> string \<Rightarrow> get_options \<Rightarrow> state \<Rightarrow> bool" where
  \<comment> \<open>the value handed to \<open>get\<close> is a string that \<open>get\<close> is to parse and that is no JSON text\<close>
  "undecodable E key opts s =
     (case fst (redis_get E key (redis s)) of
        JStr text \<Rightarrow> parseJSON opts \<and> JSON_parse E text = None
      | _ \<Rightarrow> False)"

section \<open>Character tables\<close>

text \<open>
  The classes and the case mappings of the printable ASCII characters and of TAB, LF and
  CR, computed once from the definitions; the concrete runs below look them up.
\<close>

lemma word_table:
  "list_all is_word_char
     [CHR ''0'', CHR ''1'', CHR ''2'', CHR ''3'', CHR ''4'', CHR ''5'', CHR ''6'',
      CHR ''7'', CHR ''8'', CHR ''9'', CHR ''A'', CHR ''B'', CHR ''C'', CHR ''D'',
      CHR ''E'', CHR ''F'', CHR ''G'', CHR ''H'', CHR ''I'', CHR ''J'', CHR ''K'',
      CHR ''L'', CHR ''M'', CHR ''N'', CHR ''O'', CHR ''P'', CHR ''Q'', CHR ''R'',
      CHR ''S'', CHR ''T'', CHR ''U'', CHR ''V'', CHR ''W'', CHR ''X'', CHR ''Y'',
      CHR ''Z'', CHR ''_'', CHR ''a'', CHR ''b'', CHR ''c'', CHR ''d'', CHR ''e'',
      CHR ''f'', CHR ''g'', CHR ''h'', CHR ''i'', CHR ''j'', CHR ''k'', CHR ''l'',
      CHR ''m'', CHR ''n'', CHR ''o'', CHR ''p'', CHR ''q'', CHR ''r'', CHR ''s'',
      CHR ''t'', CHR ''u'', CHR ''v'', CHR ''w'', CHR ''x'', CHR ''y'', CHR ''z'']"
  "list_all (\<lambda>c. \<not> is_word_char c)
     [CHR 0x09, CHR 0x0A, CHR 0x0D, CHR '' '', CHR 0x21, CHR 0x22, CHR 0x23, CHR 0x24,
      CHR 0x25, CHR 0x26, CHR 0x27, CHR 0x28, CHR 0x29, CHR 0x2A, CHR 0x2B, CHR 0x2C,
      CHR 0x2D, CHR 0x2E, CHR 0x2F, CHR 0x3A, CHR 0x3B, CHR 0x3C, CHR 0x3D, CHR 0x3E,
      CHR 0x3F, CHR 0x40, CHR 0x5B, CHR 0x5C, CHR 0x5D, CHR 0x5E, CHR 0x60, CHR 0x7B,
      CHR 0x7C, CHR 0x7D, CHR 0x7E]"
  by code_simp+

lemma space_table:
  "list_all is_space
     [CHR 0x09, CHR 0x0A, CHR 0x0D, CHR '' '']"
  "list_all (\<lambda>c. \<not> is_space c)
     [CHR 0x21, CHR 0x22, CHR 0x23, CHR 0x24, CHR 0x25, CHR 0x26, CHR 0x27, CHR 0x28,
      CHR 0x29, CHR 0x2A, CHR 0x2B, CHR 0x2C, CHR 0x2D, CHR 0x2E, CHR 0x2F, CHR ''0'',
      CHR ''1'', CHR ''2'', CHR ''3'', CHR ''4'', CHR ''5'', CHR ''6'', CHR ''7'',
      CHR ''8'', CHR ''9'', CHR 0x3A, CHR 0x3B, CHR 0x3C, CHR 0x3D, CHR 0x3E, CHR 0x3F,
      CHR 0x40, CHR ''A'', CHR ''B'', CHR ''C'', CHR ''D'', CHR ''E'', CHR ''F'',
      CHR ''G'', CHR ''H'', CHR ''I'', CHR ''J'', CHR ''K'', CHR ''L'', CHR ''M'',
      CHR ''N'', CHR ''O'', CHR ''P'', CHR ''Q'', CHR ''R'', CHR ''S'', CHR ''T'',
      CHR ''U'', CHR ''V'', CHR ''W'', CHR ''X'', CHR ''Y'', CHR ''Z'', CHR 0x5B,
      CHR 0x5C, CHR 0x5D, CHR 0x5E, CHR ''_'', CHR 0x60, CHR ''a'', CHR ''b'',
      CHR ''c'', CHR ''d'', CHR ''e'', CHR ''f'', CHR ''g'', CHR ''h'', CHR ''i'',
      CHR ''j'', CHR ''k'', CHR ''l'', CHR ''m'', CHR ''n'', CHR ''o'', CHR ''p'',
      CHR ''q'', CHR ''r'', CHR ''s'', CHR ''t'', CHR ''u'', CHR ''v'', CHR ''w'',
      CHR ''x'', CHR ''y'', CHR ''z'', CHR 0x7B, CHR 0x7C, CHR 0x7D, CHR 0x7E]"
  by code_simp+

lemma digit_table:
  "list_all is_digit
     [CHR ''0'', CHR ''1'', CHR ''2'', CHR ''3'', CHR ''4'', CHR ''5'', CHR ''6'',
      CHR ''7'', CHR ''8'', CHR ''9'']"
  "list_all (\<lambda>c. \<not> is_digit c)
     [CHR 0x09, CHR 0x0A, CHR 0x0D, CHR '' '', CHR 0x21, CHR 0x22, CHR 0x23, CHR 0x24,
      CHR 0x25, CHR 0x26, CHR 0x27, CHR 0x28, CHR 0x29, CHR 0x2A, CHR 0x2B, CHR 0x2C,
      CHR 0x2D, CHR 0x2E, CHR 0x2F, CHR 0x3A, CHR 0x3B, CHR 0x3C, CHR 0x3D, CHR 0x3E,
      CHR 0x3F, CHR 0x40, CHR ''A'', CHR ''B'', CHR ''C'', CHR ''D'', CHR ''E'',
      CHR ''F'', CHR ''G'', CHR ''H'', CHR ''I'', CHR ''J'', CHR ''K'', CHR ''L'',
      CHR ''M'', CHR ''N'', CHR ''O'', CHR ''P'', CHR ''Q'', CHR ''R'', CHR ''S'',
      CHR ''T'', CHR ''U'', CHR ''V'', CHR ''W'', CHR ''X'', CHR ''Y'', CHR ''Z'',
      CHR 0x5B, CHR 0x5C, CHR 0x5D, CHR 0x5E, CHR ''_'', CHR 0x60, CHR ''a'',
      CHR ''b'', CHR ''c'', CHR ''d'', CHR ''e'', CHR ''f'', CHR ''g'', CHR ''h'',
      CHR ''i'', CHR ''j'', CHR ''k'', CHR ''l'', CHR ''m'', CHR ''n'', CHR ''o'',
      CHR ''p'', CHR ''q'', CHR ''r'', CHR ''s'', CHR ''t'', CHR ''u'', CHR ''v'',
      CHR ''w'', CHR ''x'', CHR ''y'', CHR ''z'', CHR 0x7B, CHR 0x7C, CHR 0x7D,
      CHR 0x7E]"
  by code_simp+

lemma line_terminator_table:
  "list_all is_line_terminator
     [CHR 0x0A, CHR 0x0D]"
  "list_all (\<lambda>c. \<not> is_line_terminator c)
     [CHR 0x09, CHR '' '', CHR 0x21, CHR 0x22, CHR 0x23, CHR 0x24, CHR 0x25, CHR 0x26,
      CHR 0x27, CHR 0x28, CHR 0x29, CHR 0x2A, CHR 0x2B, CHR 0x2C, CHR 0x2D, CHR 0x2E,
      CHR 0x2F, CHR ''0'', CHR ''1'', CHR ''2'', CHR ''3'', CHR ''4'', CHR ''5'',
      CHR ''6'', CHR ''7'', CHR ''8'', CHR ''9'', CHR 0x3A, CHR 0x3B, CHR 0x3C,
      CHR 0x3D, CHR 0x3E, CHR 0x3F, CHR 0x40, CHR ''A'', CHR ''B'', CHR ''C'',
      CHR ''D'', CHR ''E'', CHR ''F'', CHR ''G'', CHR ''H'', CHR ''I'', CHR ''J'',
      CHR ''K'', CHR ''L'', CHR ''M'', CHR ''N'', CHR ''O'', CHR ''P'', CHR ''Q'',
      CHR ''R'', CHR ''S'', CHR ''T'', CHR ''U'', CHR ''V'', CHR ''W'', CHR ''X'',
      CHR ''Y'', CHR ''Z'', CHR 0x5B, CHR 0x5C, CHR 0x5D, CHR 0x5E, CHR ''_'',
      CHR 0x60, CHR ''a'', CHR ''b'', CHR ''c'', CHR ''d'', CHR ''e'', CHR ''f'',
      CHR ''g'', CHR ''h'', CHR ''i'', CHR ''j'', CHR ''k'', CHR ''l'', CHR ''m'',
      CHR ''n'', CHR ''o'', CHR ''p'', CHR ''q'', CHR ''r'', CHR ''s'', CHR ''t'',
      CHR ''u'', CHR ''v'', CHR ''w'', CHR ''x'', CHR ''y'', CHR ''z'', CHR 0x7B,
      CHR 0x7C, CHR 0x7D, CHR 0x7E]"
  by code_simp+

lemma canonicalize_table:
  "map canonicalize
     [CHR 0x09, CHR 0x0A, CHR 0x0D, CHR '' '', CHR 0x21, CHR 0x22, CHR 0x23, CHR 0x24,
      CHR 0x25, CHR 0x26, CHR 0x27, CHR 0x28, CHR 0x29, CHR 0x2A, CHR 0x2B, CHR 0x2C,
      CHR 0x2D, CHR 0x2E, CHR 0x2F, CHR ''0'', CHR ''1'', CHR ''2'', CHR ''3'',
      CHR ''4'', CHR ''5'', CHR ''6'', CHR ''7'', CHR ''8'', CHR ''9'', CHR 0x3A,
      CHR 0x3B, CHR 0x3C, CHR 0x3D, CHR 0x3E, CHR 0x3F, CHR 0x40, CHR ''A'', CHR ''B'',
      CHR ''C'', CHR ''D'', CHR ''E'', CHR ''F'', CHR ''G'', CHR ''H'', CHR ''I'',
      CHR ''J'', CHR ''K'', CHR ''L'', CHR ''M'', CHR ''N'', CHR ''O'', CHR ''P'',
      CHR ''Q'', CHR ''R'', CHR ''S'', CHR ''T'', CHR ''U'', CHR ''V'', CHR ''W'',
      CHR ''X'', CHR ''Y'', CHR ''Z'', CHR 0x5B, CHR 0x5C, CHR 0x5D, CHR 0x5E,
      CHR ''_'', CHR 0x60, CHR ''a'', CHR ''b'', CHR ''c'', CHR ''d'', CHR ''e'',
      CHR ''f'', CHR ''g'', CHR ''h'', CHR ''i'', CHR ''j'', CHR ''k'', CHR ''l'',
      CHR ''m'', CHR ''n'', CHR ''o'', CHR ''p'', CHR ''q'', CHR ''r'', CHR ''s'',
      CHR ''t'', CHR ''u'', CHR ''v'', CHR ''w'', CHR ''x'', CHR ''y'', CHR ''z'',
      CHR 0x7B, CHR 0x7C, CHR 0x7D, CHR 0x7E] =
     [CHR 0x09, CHR 0x0A, CHR 0x0D, CHR '' '', CHR 0x21, CHR 0x22, CHR 0x23, CHR 0x24,
      CHR 0x25, CHR 0x26, CHR 0x27, CHR 0x28, CHR 0x29, CHR 0x2A, CHR 0x2B, CHR 0x2C,
      CHR 0x2D, CHR 0x2E, CHR 0x2F, CHR ''0'', CHR ''1'', CHR ''2'', CHR ''3'',
      CHR ''4'', CHR ''5'', CHR ''6'', CHR ''7'', CHR ''8'', CHR ''9'', CHR 0x3A,
      CHR 0x3B, CHR 0x3C, CHR 0x3D, CHR 0x3E, CHR 0x3F, CHR 0x40, CHR ''A'', CHR ''B'',
      CHR ''C'', CHR ''D'', CHR ''E'', CHR ''F'', CHR ''G'', CHR ''H'', CHR ''I'',
      CHR ''J'', CHR ''K'', CHR ''L'', CHR ''M'', CHR ''N'', CHR ''O'', CHR ''P'',
      CHR ''Q'', CHR ''R'', CHR ''S'', CHR ''T'', CHR ''U'', CHR ''V'', CHR ''W'',
      CHR ''X'', CHR ''Y'', CHR ''Z'', CHR 0x5B, CHR 0x5C, CHR 0x5D, CHR 0x5E,
      CHR ''_'', CHR 0x60, CHR ''A'', CHR ''B'', CHR ''C'', CHR ''D'', CHR ''E'',
      CHR ''F'', CHR ''G'', CHR ''H'', CHR ''I'', CHR ''J'', CHR ''K'', CHR ''L'',
      CHR ''M'', CHR ''N'', CHR ''O'', CHR ''P'', CHR ''Q'', CHR ''R'', CHR ''S'',
      CHR ''T'', CHR ''U'', CHR ''V'', CHR ''W'', CHR ''X'', CHR ''Y'', CHR ''Z'',
      CHR 0x7B, CHR 0x7C, CHR 0x7D, CHR 0x7E]"
  by code_simp

lemma toLowerCase_table:
  "map toLowerCase_char
     [CHR 0x09, CHR 0x0A, CHR 0x0D, CHR '' '', CHR 0x21, CHR 0x22, CHR 0x23, CHR 0x24,
      CHR 0x25, CHR 0x26, CHR 0x27, CHR 0x28, CHR 0x29, CHR 0x2A, CHR 0x2B, CHR 0x2C,
      CHR 0x2D, CHR 0x2E, CHR 0x2F, CHR ''0'', CHR ''1'', CHR ''2'', CHR ''3'',
      CHR ''4'', CHR ''5'', CHR ''6'', CHR ''7'', CHR ''8'', CHR ''9'', CHR 0x3A,
      CHR 0x3B, CHR 0x3C, CHR 0x3D, CHR 0x3E, CHR 0x3F, CHR 0x40, CHR ''A'', CHR ''B'',
      CHR ''C'', CHR ''D'', CHR ''E'', CHR ''F'', CHR ''G'', CHR ''H'', CHR ''I'',
      CHR ''J'', CHR ''K'', CHR ''L'', CHR ''M'', CHR ''N'', CHR ''O'', CHR ''P'',
      CHR ''Q'', CHR ''R'', CHR ''S'', CHR ''T'', CHR ''U'', CHR ''V'', CHR ''W'',
      CHR ''X'', CHR ''Y'', CHR ''Z'', CHR 0x5B, CHR 0x5C, CHR 0x5D, CHR 0x5E,
      CHR ''_'', CHR 0x60, CHR ''a'', CHR ''b'', CHR ''c'', CHR ''d'', CHR ''e'',
      CHR ''f'', CHR ''g'', CHR ''h'', CHR ''i'', CHR ''j'', CHR ''k'', CHR ''l'',
      CHR ''m'', CHR ''n'', CHR ''o'', CHR ''p'', CHR ''q'', CHR ''r'', CHR ''s'',
      CHR ''t'', CHR ''u'', CHR ''v'', CHR ''w'', CHR ''x'', CHR ''y'', CHR ''z'',
      CHR 0x7B, CHR 0x7C, CHR 0x7D, CHR 0x7E] =
     [CHR 0x09, CHR 0x0A, CHR 0x0D, CHR '' '', CHR 0x21, CHR 0x22, CHR 0x23, CHR 0x24,
      CHR 0x25, CHR 0x26, CHR 0x27, CHR 0x28, CHR 0x29, CHR 0x2A, CHR 0x2B, CHR 0x2C,
      CHR 0x2D, CHR 0x2E, CHR 0x2F, CHR ''0'', CHR ''1'', CHR ''2'', CHR ''3'',
      CHR ''4'', CHR ''5'', CHR ''6'', CHR ''7'', CHR ''8'', CHR ''9'', CHR 0x3A,
      CHR 0x3B, CHR 0x3C, CHR 0x3D, CHR 0x3E, CHR 0x3F, CHR 0x40, CHR ''a'', CHR ''b'',
      CHR ''c'', CHR ''d'', CHR ''e'', CHR ''f'', CHR ''g'', CHR ''h'', CHR ''i'',
      CHR ''j'', CHR ''k'', CHR ''l'', CHR ''m'', CHR ''n'', CHR ''o'', CHR ''p'',
      CHR ''q'', CHR ''r'', CHR ''s'', CHR ''t'', CHR ''u'', CHR ''v'', CHR ''w'',
      CHR ''x'', CHR ''y'', CHR ''z'', CHR 0x5B, CHR 0x5C, CHR 0x5D, CHR 0x5E,
      CHR ''_'', CHR 0x60, CHR ''a'', CHR ''b'', CHR ''c'', CHR ''d'', CHR ''e'',
      CHR ''f'', CHR ''g'', CHR ''h'', CHR ''i'', CHR ''j'', CHR ''k'', CHR ''l'',
      CHR ''m'', CHR ''n'', CHR ''o'', CHR ''p'', CHR ''q'', CHR ''r'', CHR ''s'',
      CHR ''t'', CHR ''u'', CHR ''v'', CHR ''w'', CHR ''x'', CHR ''y'', CHR ''z'',
      CHR 0x7B, CHR 0x7C, CHR 0x7D, CHR 0x7E]"
  by code_simp

lemma escape_table:
  "list_all (\<lambda>c. escape_char c = [c])
     [CHR '' '', CHR 0x21, CHR 0x23, CHR 0x24, CHR 0x25, CHR 0x26, CHR 0x27, CHR 0x28,
      CHR 0x29, CHR 0x2A, CHR 0x2B, CHR 0x2C, CHR 0x2D, CHR 0x2E, CHR 0x2F, CHR ''0'',
      CHR ''1'', CHR ''2'', CHR ''3'', CHR ''4'', CHR ''5'', CHR ''6'', CHR ''7'',
      CHR ''8'', CHR ''9'', CHR 0x3A, CHR 0x3B, CHR 0x3C, CHR 0x3D, CHR 0x3E, CHR 0x3F,
      CHR 0x40, CHR ''A'', CHR ''B'', CHR ''C'', CHR ''D'', CHR ''E'', CHR ''F'',
      CHR ''G'', CHR ''H'', CHR ''I'', CHR ''J'', CHR ''K'', CHR ''L'', CHR ''M'',
      CHR ''N'', CHR ''O'', CHR ''P'', CHR ''Q'', CHR ''R'', CHR ''S'', CHR ''T'',
      CHR ''U'', CHR ''V'', CHR ''W'', CHR ''X'', CHR ''Y'', CHR ''Z'', CHR 0x5B,
      CHR 0x5D, CHR 0x5E, CHR ''_'', CHR 0x60, CHR ''a'', CHR ''b'', CHR ''c'',
      CHR ''d'', CHR ''e'', CHR ''f'', CHR ''g'', CHR ''h'', CHR ''i'', CHR ''j'',
      CHR ''k'', CHR ''l'', CHR ''m'', CHR ''n'', CHR ''o'', CHR ''p'', CHR ''q'',
      CHR ''r'', CHR ''s'', CHR ''t'', CHR ''u'', CHR ''v'', CHR ''w'', CHR ''x'',
      CHR ''y'', CHR ''z'', CHR 0x7B, CHR 0x7C, CHR 0x7D, CHR 0x7E]"
  by code_simp

lemma plain_table:
  "list_all plain_char
     [CHR '' '', CHR 0x21, CHR 0x23, CHR 0x24, CHR 0x25, CHR 0x26, CHR 0x27, CHR 0x28,
      CHR 0x29, CHR 0x2A, CHR 0x2B, CHR 0x2C, CHR 0x2D, CHR 0x2E, CHR 0x2F, CHR ''0'',
      CHR ''1'', CHR ''2'', CHR ''3'', CHR ''4'', CHR ''5'', CHR ''6'', CHR ''7'',
      CHR ''8'', CHR ''9'', CHR 0x3A, CHR 0x3B, CHR 0x3C, CHR 0x3D, CHR 0x3E, CHR 0x3F,
      CHR 0x40, CHR ''A'', CHR ''B'', CHR ''C'', CHR ''D'', CHR ''E'', CHR ''F'',
      CHR ''G'', CHR ''H'', CHR ''I'', CHR ''J'', CHR ''K'', CHR ''L'', CHR ''M'',
      CHR ''N'', CHR ''O'', CHR ''P'', CHR ''Q'', CHR ''R'', CHR ''S'', CHR ''T'',
      CHR ''U'', CHR ''V'', CHR ''W'', CHR ''X'', CHR ''Y'', CHR ''Z'', CHR 0x5B,
      CHR 0x5D, CHR 0x5E, CHR ''_'', CHR 0x60, CHR ''a'', CHR ''b'', CHR ''c'',
      CHR ''d'', CHR ''e'', CHR ''f'', CHR ''g'', CHR ''h'', CHR ''i'', CHR ''j'',
      CHR ''k'', CHR ''l'', CHR ''m'', CHR ''n'', CHR ''o'', CHR ''p'', CHR ''q'',
      CHR ''r'', CHR ''s'', CHR ''t'', CHR ''u'', CHR ''v'', CHR ''w'', CHR ''x'',
      CHR ''y'', CHR ''z'', CHR 0x7B, CHR 0x7C, CHR 0x7D, CHR 0x7E]"
  "list_all (\<lambda>c. \<not> plain_char c)
     [CHR 0x09, CHR 0x0A, CHR 0x0D, CHR 0x22, CHR 0x5C]"
  by code_simp+

lemma digit_char_table:
  "map digit_char [0, 1, 2, 3, 4, 5, 6, 7, 8, 9] = ''0123456789''"
  by code_simp

lemma digit_value_table:
  "map digit_value ''0123456789'' = [0, 1, 2, 3, 4, 5, 6, 7, 8, 9]"
  by code_simp

lemmas char_tables [simp] =
  word_table [simplified] space_table [simplified] digit_table [simplified]
  line_terminator_table [simplified] canonicalize_table [simplified]
  toLowerCase_table [simplified] escape_table [simplified] plain_table [simplified]
  digit_char_table [simplified] digit_value_table [simplified]

section \<open>Running the code in the concrete environment\<close>

lemma demo_env_fields [simp]:
  "DB_TYPE demo_env = None"
  "pool_query demo_env = users_pool"
  "JSON_parse demo_env = JSON_parse_scalar"
  "JSON_stringify demo_env v = (if v = JUndefined then None else Some (JSON_text v))"
  "md5_hex demo_env text = text"
  "gzip_base64 demo_env text = ''gz'' @ text"
  "elapsed demo_env = 7"
  by (simp_all add: demo_env_def)

lemmas validator_eval =
  validateQuery_def toLowerCase_def trim_def startsWith_def blacklistedKeywords_def
  keyword_test_def keyword_at_def word_boundary_def is_word_opt_def head_opt_def
  injectionPatterns_def lit_def lit_ci_def ws_plus_def one_space_def mutating_words_def
  count_char_def

lemmas number_eval =
  string_of_int_def string_of_nat.simps digits_value_def parseInt_string_def startsWith_def

lemmas rewriter_eval =
  addPaginationToSQL_def strip_semicolons_def trim_def limit_at_def offset_tail_def
  number_eval dbType_def Let_def

lemmas cache_eval =
  cacheService_get_def cacheService_get_try_def cacheService_set_def redis_get_def redis_set_def
  this_del_def count_request_def count_hit_def count_miss_def count_error_def
  default_get_options_def default_set_options_def generateCacheKey_def cachePrefix_def
  cacheTTL_def JSON_parse_scalar_def startsWith_def dquote_def quoted_def jsval_of_result_def
  number_eval Let_def

lemmas demo_eval =
  users_pool_def fresh_state_def default_exec_options_def defaultPageSize_def
  database_query_def dbType_def Let_def

lemma users_statement_valid: "validateQuery ''SELECT id FROM users'' = Inr ()"
  by (simp add: validator_eval)

lemma users_first_page:
  "addPaginationToSQL demo_env ''SELECT id FROM users'' (Num 50) (Num 0) =
     ''SELECT id FROM users LIMIT 50 OFFSET 0''"
  by (simp add: rewriter_eval)

lemma users_count_rejected:
  "getTotalCount_try demo_env ''SELECT id FROM users'' = Inl (Error ''statement rejected'')"
  by (simp add: getTotalCount_try_def count_statement_def strip_semicolons_def trim_def demo_eval)

lemma users_page:
  "executeWithPagination demo_env ''SELECT id FROM users'' (Num 0) (Num 500) =
     Inr \<lparr>rows = [JObj [(''id'', JNum 1)], JObj [(''id'', JNum 2)]],
          pagination = \<lparr>page = Num 1, pageSize = Num 50, totalRows = Num 0, totalPages = Num 0,
            hasNextPage = False, hasPreviousPage = False\<rparr>,
          metadata = \<lparr>executionTime = 7, rowCount = 2,
            fieldInfos = [\<lparr>field_name = JStr ''id'', field_type = JNum 23\<rparr>]\<rparr>,
          fromCache = False\<rparr>"
  by (simp add: executeWithPagination_def executeWithPagination_try_def clamp_page_def
      clamp_pageSize_def users_first_page
      getTotalCount_def users_count_rejected js_or_def demo_eval)

section \<open>Properties of the validator\<close>

text \<open>
  C2. A text whose trimmed, lower-cased form does not begin with \<open>select\<close> is rejected
  with the reason "Only SELECT statements are allowed". This is the first check of the
  validator, and \<open>executeQuery\<close> raises that error before the cache, the database or the
  explain path is used: the state is unchanged, whatever the options, the environment
  and the rest of the text are.
\<close>

theorem C2_only_select:
  assumes "\<not> startsWith ''select'' (toLowerCase (trim sql))"
  shows "validateQuery sql = Inl (Error ''Only SELECT statements are allowed'') \<and>
         executeQuery E sql opts s = (Inl (Error ''Only SELECT statements are allowed''), s)"
  using assms by (simp add: validateQuery_def executeQuery_def)

theorem C2_only_select_witness:
  "\<not> startsWith ''select'' (toLowerCase (trim ''  Drop table users''))
   \<and> validateQuery ''  Drop table users'' = Inl (Error ''Only SELECT statements are allowed'')
   \<and> executeQuery demo_env ''  Drop table users'' default_exec_options fresh_state
       = (Inl (Error ''Only SELECT statements are allowed''), fresh_state)"
proof -
  have h: "\<not> startsWith ''select'' (toLowerCase (trim ''  Drop table users''))"
    by code_simp
  from C2_only_select [OF h, of demo_env default_exec_options fresh_state] h
  show ?thesis by simp
qed


lemma of_char_toLowerCase:
  "(of_char (toLowerCase_char c) :: nat) = (let n = of_char c in
     if (65 \<le> n \<and> n \<le> 90) \<or> (192 \<le> n \<and> n \<le> 222 \<and> n \<noteq> 215) then n + 32 else n)"
  unfolding toLowerCase_char_def Let_def by (auto simp: of_char_of)

lemma of_char_canonicalize:
  "(of_char (canonicalize c) :: nat) = (let n = of_char c in
     if (97 \<le> n \<and> n \<le> 122) \<or> (224 \<le> n \<and> n \<le> 254 \<and> n \<noteq> 247) then n - 32 else n)"
  unfolding canonicalize_def Let_def by (auto simp: of_char_of)

lemma char_eq_by_code: "(of_char a :: nat) = of_char b \<Longrightarrow> a = b"
  by simp

lemma canonicalize_toLowerCase [simp]: "canonicalize (toLowerCase_char c) = canonicalize c"
  by (rule char_eq_by_code) (auto simp: of_char_canonicalize of_char_toLowerCase Let_def)

lemma is_word_char_toLowerCase [simp]: "is_word_char (toLowerCase_char c) = is_word_char c"
  unfolding is_word_char_def of_char_toLowerCase Let_def by auto

lemma is_word_char_canonicalize: "is_word_char (canonicalize c) = is_word_char c"
  unfolding is_word_char_def of_char_canonicalize Let_def by auto

lemma canonical_eq_word: "canonicalize c = canonicalize k \<Longrightarrow> is_word_char c = is_word_char k"
  by (metis is_word_char_canonicalize)

lemma space_not_word: "is_space c \<Longrightarrow> \<not> is_word_char c"
  by (auto simp: is_space_def is_word_char_def Let_def)


lemma ci_prefix_iff:
  "ci_prefix kw s \<longleftrightarrow> (\<exists>mid rest. s = mid @ rest \<and> map canonicalize mid = map canonicalize kw)"
proof (induction kw s rule: ci_prefix.induct)
  case (1 s)
  then show ?case by simp
next
  case (2 p ps)
  then show ?case by simp
next
  case (3 p ps c cs)
  show ?case
  proof
    assume "ci_prefix (p # ps) (c # cs)"
    then have h: "canonicalize c = canonicalize p" and "ci_prefix ps cs" by simp_all
    with 3 obtain mid rest where "cs = mid @ rest" "map canonicalize mid = map canonicalize ps"
      by blast
    with h have "c # cs = (c # mid) @ rest \<and> map canonicalize (c # mid) = map canonicalize (p # ps)"
      by simp
    then show "\<exists>mid rest. c # cs = mid @ rest \<and> map canonicalize mid = map canonicalize (p # ps)"
      by blast
  next
    assume "\<exists>mid rest. c # cs = mid @ rest \<and> map canonicalize mid = map canonicalize (p # ps)"
    then obtain mid rest where m: "c # cs = mid @ rest" "map canonicalize mid = map canonicalize (p # ps)"
      by blast
    then obtain m' where mid: "mid = c # m'" "cs = m' @ rest"
      by (cases mid) auto
    with m have "canonicalize c = canonicalize p" "map canonicalize m' = map canonicalize ps"
      by simp_all
    with 3 mid show "ci_prefix (p # ps) (c # cs)"
      by auto
  qed
qed

lemma canonical_word:
  "map canonicalize mid = map canonicalize kw \<Longrightarrow> list_all is_word_char kw \<Longrightarrow>
   list_all is_word_char mid"
proof (induction mid arbitrary: kw)
  case Nil
  then show ?case by simp
next
  case (Cons c mid)
  then obtain k ks where kw: "kw = k # ks" by (cases kw) auto
  with Cons show ?case
    by (auto dest: canonical_eq_word)
qed

lemma keyword_at_iff:
  assumes "plain_word kw"
  shows "keyword_at kw p s \<longleftrightarrow>
     (\<exists>mid rest. s = mid @ rest \<and> map canonicalize mid = map canonicalize kw \<and>
        \<not> is_word_opt p \<and> (rest = [] \<or> \<not> is_word_char (hd rest)))"
proof
  assume at: "keyword_at kw p s"
  then have "ci_prefix kw s" by (simp add: keyword_at_def)
  then obtain mid rest where s: "s = mid @ rest" and c: "map canonicalize mid = map canonicalize kw"
    by (auto simp: ci_prefix_iff)
  from c have len: "length mid = length kw" by (metis length_map)
  from assms c have w: "list_all is_word_char mid" and ne: "mid \<noteq> []"
    using canonical_word len by (auto simp: plain_word_def)
  from ne w have hdw: "is_word_char (hd mid)" and lastw: "is_word_char (last mid)"
    by (auto simp: list_all_iff)
  from ne s have ho: "head_opt s = Some (hd mid)"
    by (cases mid) (auto simp: head_opt_def)
  from at ho hdw have b1: "\<not> is_word_opt p"
    by (simp add: keyword_at_def word_boundary_def is_word_opt_def)
  from assms have kwne: "kw \<noteq> []" by (simp add: plain_word_def)
  from at kwne s len lastw have "\<not> is_word_opt (head_opt rest)"
    by (simp add: keyword_at_def word_boundary_def is_word_opt_def)
  then have b2: "rest = [] \<or> \<not> is_word_char (hd rest)"
    by (cases rest) (auto simp: head_opt_def is_word_opt_def)
  from s c b1 b2 show "\<exists>mid rest. s = mid @ rest \<and> map canonicalize mid = map canonicalize kw \<and>
        \<not> is_word_opt p \<and> (rest = [] \<or> \<not> is_word_char (hd rest))"
    by blast
next
  assume "\<exists>mid rest. s = mid @ rest \<and> map canonicalize mid = map canonicalize kw \<and>
        \<not> is_word_opt p \<and> (rest = [] \<or> \<not> is_word_char (hd rest))"
  then obtain mid rest where s: "s = mid @ rest" and c: "map canonicalize mid = map canonicalize kw"
    and b1: "\<not> is_word_opt p" and b2: "rest = [] \<or> \<not> is_word_char (hd rest)"
    by blast
  from c have len: "length mid = length kw" by (metis length_map)
  from assms c have w: "list_all is_word_char mid" and ne: "mid \<noteq> []"
    using canonical_word len by (auto simp: plain_word_def)
  from ne w have hdw: "is_word_char (hd mid)" and lastw: "is_word_char (last mid)"
    by (auto simp: list_all_iff)
  from ne s have ho: "head_opt s = Some (hd mid)"
    by (cases mid) (auto simp: head_opt_def)
  from assms have kwne: "kw \<noteq> []" by (simp add: plain_word_def)
  from b2 have b2': "\<not> is_word_opt (head_opt rest)"
    by (cases rest) (auto simp: head_opt_def is_word_opt_def)
  have "ci_prefix kw s" using s c by (auto simp: ci_prefix_iff)
  with b1 b2' ho hdw kwne s len lastw show "keyword_at kw p s"
    by (simp add: keyword_at_def word_boundary_def is_word_opt_def)
qed

lemma keyword_search_iff:
  "keyword_search kw prev s \<longleftrightarrow>
     (\<exists>pre post. s = pre @ post \<and> keyword_at kw (if pre = [] then prev else Some (last pre)) post)"
proof (induction s arbitrary: prev)
  case Nil
  then show ?case by simp
next
  case (Cons c cs)
  show ?case
  proof
    assume "keyword_search kw prev (c # cs)"
    then consider "keyword_at kw prev (c # cs)" | "keyword_search kw (Some c) cs" by auto
    then show "\<exists>pre post. c # cs = pre @ post \<and>
                 keyword_at kw (if pre = [] then prev else Some (last pre)) post"
    proof cases
      case 1
      then have "c # cs = [] @ (c # cs) \<and> keyword_at kw (if ([]::string) = [] then prev else Some (last [])) (c # cs)"
        by simp
      then show ?thesis by blast
    next
      case 2
      with Cons obtain pre post where cs: "cs = pre @ post"
        and at: "keyword_at kw (if pre = [] then Some c else Some (last pre)) post"
        by blast
      then have "c # cs = (c # pre) @ post \<and>
                 keyword_at kw (if c # pre = [] then prev else Some (last (c # pre))) post"
        by auto
      then show ?thesis by blast
    qed
  next
    assume "\<exists>pre post. c # cs = pre @ post \<and>
              keyword_at kw (if pre = [] then prev else Some (last pre)) post"
    then obtain pre post where split: "c # cs = pre @ post"
      and at: "keyword_at kw (if pre = [] then prev else Some (last pre)) post"
      by blast
    show "keyword_search kw prev (c # cs)"
    proof (cases pre)
      case Nil
      with split at have "keyword_at kw prev (c # cs)" by simp
      then show ?thesis by simp
    next
      case (Cons a pre')
      with split have a: "a = c" and cs: "cs = pre' @ post" by simp_all
      from at Cons a have "keyword_at kw (if pre' = [] then Some c else Some (last pre')) post"
        by auto
      with cs have "keyword_search kw (Some c) cs"
        using Cons.IH by blast
      then show ?thesis by simp
    qed
  qed
qed

lemma keyword_test_iff:
  assumes "plain_word kw"
  shows "keyword_test kw s \<longleftrightarrow> contains_whole_word kw s"
proof -
  have opt: "\<And>pre::string. is_word_opt (if pre = [] then None else Some (last pre))
                \<longleftrightarrow> pre \<noteq> [] \<and> is_word_char (last pre)"
    by (simp add: is_word_opt_def)
  show ?thesis
    unfolding keyword_test_def keyword_search_iff keyword_at_iff [OF assms] contains_whole_word_def opt
    by blast
qed


lemma canonicalize_after_toLowerCase [simp]:
  "canonicalize \<circ> toLowerCase_char = canonicalize"
  by (rule ext) simp

lemma whole_word_toLowerCase:
  "contains_whole_word kw (toLowerCase s) \<longleftrightarrow> contains_whole_word kw s"
proof
  assume "contains_whole_word kw s"
  then obtain pre mid post where s: "s = pre @ mid @ post"
    and c: "map canonicalize mid = map canonicalize kw"
    and b1: "pre = [] \<or> \<not> is_word_char (last pre)"
    and b2: "post = [] \<or> \<not> is_word_char (hd post)"
    by (auto simp: contains_whole_word_def)
  let ?f = toLowerCase_char
  have "toLowerCase s = map ?f pre @ map ?f mid @ map ?f post"
    by (simp add: s toLowerCase_def)
  moreover have "map canonicalize (map ?f mid) = map canonicalize kw"
    using c by simp
  moreover have "map ?f pre = [] \<or> \<not> is_word_char (last (map ?f pre))"
    using b1 by (auto simp: last_map)
  moreover have "map ?f post = [] \<or> \<not> is_word_char (hd (map ?f post))"
    using b2 by (auto simp: hd_map)
  ultimately show "contains_whole_word kw (toLowerCase s)"
    unfolding contains_whole_word_def by blast
next
  assume "contains_whole_word kw (toLowerCase s)"
  then obtain pre' mid' post' where s': "map toLowerCase_char s = pre' @ mid' @ post'"
    and c: "map canonicalize mid' = map canonicalize kw"
    and b1: "pre' = [] \<or> \<not> is_word_char (last pre')"
    and b2: "post' = [] \<or> \<not> is_word_char (hd post')"
    by (auto simp: contains_whole_word_def toLowerCase_def)
  let ?f = toLowerCase_char
  from s' have "\<exists>pre rest. s = pre @ rest \<and> pre' = map ?f pre \<and> mid' @ post' = map ?f rest"
    by (simp add: map_eq_append_conv)
  then obtain pre rest where s1: "s = pre @ rest" "map ?f pre = pre'"
    and r: "map ?f rest = mid' @ post'"
    by metis
  from r have "\<exists>mid post. rest = mid @ post \<and> mid' = map ?f mid \<and> post' = map ?f post"
    by (simp add: map_eq_append_conv)
  then obtain mid post where s2: "rest = mid @ post" "map ?f mid = mid'" "map ?f post = post'"
    by metis
  have "s = pre @ mid @ post" using s1 s2 by simp
  moreover have "map canonicalize mid = map canonicalize kw"
    using c s2 by auto
  moreover have "pre = [] \<or> \<not> is_word_char (last pre)"
    using b1 s1 by (auto simp: last_map)
  moreover have "post = [] \<or> \<not> is_word_char (hd post)"
    using b2 s2 by (auto simp: hd_map)
  ultimately show "contains_whole_word kw s"
    unfolding contains_whole_word_def by blast
qed

lemma whole_word_Cons_space:
  assumes "plain_word kw" "is_space c"
  shows "contains_whole_word kw (c # s) \<longleftrightarrow> contains_whole_word kw s"
proof
  assume "contains_whole_word kw s"
  then obtain pre mid post where s: "s = pre @ mid @ post"
    and c: "map canonicalize mid = map canonicalize kw"
    and b1: "pre = [] \<or> \<not> is_word_char (last pre)"
    and b2: "post = [] \<or> \<not> is_word_char (hd post)"
    by (auto simp: contains_whole_word_def)
  have "c # s = (c # pre) @ mid @ post" by (simp add: s)
  moreover have "\<not> is_word_char (last (c # pre))"
    using b1 assms(2) by (auto dest: space_not_word)
  ultimately show "contains_whole_word kw (c # s)"
    unfolding contains_whole_word_def using c b2 by blast
next
  assume "contains_whole_word kw (c # s)"
  then obtain pre mid post where s: "c # s = pre @ mid @ post"
    and c: "map canonicalize mid = map canonicalize kw"
    and b1: "pre = [] \<or> \<not> is_word_char (last pre)"
    and b2: "post = [] \<or> \<not> is_word_char (hd post)"
    by (auto simp: contains_whole_word_def)
  from c have len: "length mid = length kw" by (metis length_map)
  from assms c have w: "list_all is_word_char mid" and ne: "mid \<noteq> []"
    using canonical_word len by (auto simp: plain_word_def)
  show "contains_whole_word kw s"
  proof (cases pre)
    case Nil
    with s ne have "hd mid = c" by (cases mid) auto
    with w ne have "is_word_char c" by (cases mid) auto
    with assms(2) show ?thesis by (auto dest: space_not_word)
  next
    case (Cons a pre')
    with s have s': "s = pre' @ mid @ post" by simp
    from b1 Cons have "pre' = [] \<or> \<not> is_word_char (last pre')"
      by (auto split: if_splits)
    with s' c b2 show ?thesis
      unfolding contains_whole_word_def by blast
  qed
qed

lemma whole_word_snoc_space:
  assumes "plain_word kw" "is_space c"
  shows "contains_whole_word kw (s @ [c]) \<longleftrightarrow> contains_whole_word kw s"
proof
  assume "contains_whole_word kw s"
  then obtain pre mid post where s: "s = pre @ mid @ post"
    and c: "map canonicalize mid = map canonicalize kw"
    and b1: "pre = [] \<or> \<not> is_word_char (last pre)"
    and b2: "post = [] \<or> \<not> is_word_char (hd post)"
    by (auto simp: contains_whole_word_def)
  have "s @ [c] = pre @ mid @ (post @ [c])" by (simp add: s)
  moreover have "\<not> is_word_char (hd (post @ [c]))"
    using b2 assms(2) by (cases post) (auto dest: space_not_word)
  ultimately show "contains_whole_word kw (s @ [c])"
    unfolding contains_whole_word_def using c b1 by blast
next
  assume "contains_whole_word kw (s @ [c])"
  then obtain pre mid post where s: "s @ [c] = pre @ mid @ post"
    and c: "map canonicalize mid = map canonicalize kw"
    and b1: "pre = [] \<or> \<not> is_word_char (last pre)"
    and b2: "post = [] \<or> \<not> is_word_char (hd post)"
    by (auto simp: contains_whole_word_def)
  from c have len: "length mid = length kw" by (metis length_map)
  from assms c have w: "list_all is_word_char mid" and ne: "mid \<noteq> []"
    using canonical_word len by (auto simp: plain_word_def)
  show "contains_whole_word kw s"
  proof (cases post rule: rev_cases)
    case Nil
    with s ne have "last mid = c" by (metis append_Nil2 last_appendR last_snoc)
    with w ne have "is_word_char c" by (auto simp: list_all_iff)
    with assms(2) show ?thesis by (auto dest: space_not_word)
  next
    case (snoc post' a)
    with s have s': "s = pre @ mid @ post'" by simp
    from b2 snoc have "post' = [] \<or> \<not> is_word_char (hd post')"
      by (cases post') auto
    with s' c b1 show ?thesis
      unfolding contains_whole_word_def by blast
  qed
qed

lemma whole_word_dropWhile:
  assumes "plain_word kw"
  shows "contains_whole_word kw (dropWhile is_space s) \<longleftrightarrow> contains_whole_word kw s"
  by (induction s) (simp_all add: whole_word_Cons_space [OF assms])

lemma whole_word_dropWhile_end:
  assumes "plain_word kw"
  shows "contains_whole_word kw (rev (dropWhile is_space (rev s))) \<longleftrightarrow> contains_whole_word kw s"
  by (induction s rule: rev_induct) (simp_all add: whole_word_snoc_space [OF assms])

lemma whole_word_trim:
  assumes "plain_word kw"
  shows "contains_whole_word kw (trim s) \<longleftrightarrow> contains_whole_word kw s"
  by (simp add: trim_def whole_word_dropWhile_end [OF assms] whole_word_dropWhile [OF assms])

lemma blacklisted_plain: "kw \<in> set blacklistedKeywords \<Longrightarrow> plain_word kw"
  by (auto simp: blacklistedKeywords_def plain_word_def)

lemma keyword_test_trimmed:
  assumes "kw \<in> set blacklistedKeywords"
  shows "keyword_test kw (toLowerCase (trim sql)) \<longleftrightarrow> contains_whole_word kw sql"
  using blacklisted_plain [OF assms]
  by (simp add: keyword_test_iff whole_word_toLowerCase whole_word_trim)

lemma find_blacklisted:
  "find (\<lambda>keyword. keyword_test keyword (toLowerCase (trim sql))) blacklistedKeywords
     = find (\<lambda>keyword. contains_whole_word keyword sql) blacklistedKeywords"
  by (rule find_cong) (simp_all add: keyword_test_trimmed)

text \<open>
  C1, as the code has it. A text that contains an entry of the denylist as a
  case-insensitive whole word is rejected. When its trimmed, lower-cased form begins with
  \<open>select\<close>, the reason is "Forbidden keyword detected: " followed by the first entry of the
  denylist, in the order of the list, that the text contains as a whole word; otherwise
  the reason is "Only SELECT statements are allowed", the first check's.
\<close>

theorem C1_forbidden_keyword:
  assumes "kw \<in> set blacklistedKeywords" and "contains_whole_word kw sql"
  shows "\<exists>first. find (\<lambda>k. contains_whole_word k sql) blacklistedKeywords = Some first \<and>
           validateQuery sql = Inl (Error
             (if startsWith ''select'' (toLowerCase (trim sql))
              then ''Forbidden keyword detected: '' @ first
              else ''Only SELECT statements are allowed''))"
proof -
  from assms have "find (\<lambda>k. contains_whole_word k sql) blacklistedKeywords \<noteq> None"
    by (auto simp: find_None_iff)
  then obtain first where f: "find (\<lambda>k. contains_whole_word k sql) blacklistedKeywords = Some first"
    by auto
  then have "validateQuery sql = Inl (Error
             (if startsWith ''select'' (toLowerCase (trim sql))
              then ''Forbidden keyword detected: '' @ first
              else ''Only SELECT statements are allowed''))"
    by (simp add: validateQuery_def find_blacklisted)
  with f show ?thesis by blast
qed

theorem C1_forbidden_keyword_witness:
  "''delete'' \<in> set blacklistedKeywords
   \<and> contains_whole_word ''delete'' ''SELECT * FROM t; DELETE FROM t''
   \<and> validateQuery ''SELECT * FROM t; DELETE FROM t''
       = Inl (Error ''Forbidden keyword detected: delete'')"
proof -
  let ?sql = "''SELECT * FROM t; DELETE FROM t''"
  have listed: "''delete'' \<in> set blacklistedKeywords"
    by (simp add: blacklistedKeywords_def)
  have "?sql = ''SELECT * FROM t; '' @ ''DELETE'' @ '' FROM t'' \<and>
        map canonicalize ''DELETE'' = map canonicalize ''delete'' \<and>
        \<not> is_word_char (last ''SELECT * FROM t; '') \<and> \<not> is_word_char (hd '' FROM t'')"
    by simp
  then have occurs: "contains_whole_word ''delete'' ?sql"
    unfolding contains_whole_word_def by blast
  have sel: "startsWith ''select'' (toLowerCase (trim ?sql))"
    by (simp add: toLowerCase_def trim_def startsWith_def)
  have "find (\<lambda>keyword. keyword_test keyword (toLowerCase (trim ?sql))) blacklistedKeywords
          = Some ''delete''"
    by (simp add: validator_eval)
  then have first: "find (\<lambda>k. contains_whole_word k ?sql) blacklistedKeywords = Some ''delete''"
    by (simp add: find_blacklisted)
  from C1_forbidden_keyword [OF listed occurs] first sel
  have "validateQuery ?sql = Inl (Error ''Forbidden keyword detected: delete'')"
    by simp
  with listed occurs show ?thesis
    by blast
qed

text \<open>
  C1 as stated fails on a text that does not begin with \<open>select\<close>: it holds a keyword of
  the denylist as a whole word, and the reason given is the first check's.
\<close>

theorem C1_message_counterexample:
  "contains_whole_word ''delete'' ''DELETE FROM t''
   \<and> validateQuery ''DELETE FROM t'' = Inl (Error ''Only SELECT statements are allowed'')
   \<and> validateQuery ''DELETE FROM t'' \<noteq> Inl (Error ''Forbidden keyword detected: delete'')"
proof -
  have "''DELETE FROM t'' = [] @ ''DELETE'' @ '' FROM t'' \<and>
        map canonicalize ''DELETE'' = map canonicalize ''delete'' \<and>
        \<not> is_word_char (hd '' FROM t'')"
    by simp
  then have "contains_whole_word ''delete'' ''DELETE FROM t''"
    unfolding contains_whole_word_def by blast
  moreover have "validateQuery ''DELETE FROM t'' = Inl (Error ''Only SELECT statements are allowed'')"
    by (simp add: validateQuery_def toLowerCase_def trim_def startsWith_def)
  ultimately show ?thesis
    by simp
qed

lemma regex_test_here: "m s \<Longrightarrow> regex_test m s"
  by (cases s) simp_all

lemma regex_test_suffix: "m s \<Longrightarrow> regex_test m (pre @ s)"
  by (induction pre) (simp_all add: regex_test_here)

lemma ws_star_spaces: "list_all is_space ws \<Longrightarrow> k s \<Longrightarrow> ws_star k (ws @ s)"
proof (induction ws)
  case Nil
  then show ?case by (cases s) simp_all
next
  case (Cons c ws)
  then show ?case by simp
qed

lemma dot_star_run: "\<forall>c \<in> set mid. \<not> is_line_terminator c \<Longrightarrow> k s \<Longrightarrow> dot_star k (mid @ s)"
proof (induction mid)
  case Nil
  then show ?case by (cases s) simp_all
next
  case (Cons c mid)
  then show ?case by simp
qed

lemma ci_prefix_append:
  "map canonicalize w' = map canonicalize w \<Longrightarrow> ci_prefix w (w' @ rest)"
  by (auto simp: ci_prefix_iff)

lemma drop_canonical:
  "map canonicalize w' = map canonicalize w \<Longrightarrow> drop (length w) (w' @ rest) = rest"
  by (metis append_eq_conv_conj length_map)

lemma semicolon_keyword_matches:
  assumes "has_semicolon_keyword s"
  shows "regex_test (lit '';'' (ws_star (\<lambda>s. list_ex (\<lambda>w. ci_prefix w s) mutating_words))) s"
proof -
  from assms obtain pre ws w post kw where s: "s = pre @ '';'' @ ws @ w @ post"
    and sp: "list_all is_space ws" and kw: "kw \<in> set mutating_words"
    and c: "map canonicalize w = map canonicalize kw"
    unfolding has_semicolon_keyword_def by blast
  have "list_ex (\<lambda>w'. ci_prefix w' (w @ post)) mutating_words"
    using kw ci_prefix_append [OF c] by (auto simp: list_ex_iff)
  then have "ws_star (\<lambda>s. list_ex (\<lambda>w. ci_prefix w s) mutating_words) (ws @ w @ post)"
    using sp by (rule_tac ws_star_spaces)
  then have "lit '';'' (ws_star (\<lambda>s. list_ex (\<lambda>w. ci_prefix w s) mutating_words))
               ('';'' @ ws @ w @ post)"
    by (simp add: lit_def startsWith_def)
  then show ?thesis
    unfolding s by (rule regex_test_suffix)
qed

lemma union_select_matches:
  assumes "has_union_select s"
  shows "regex_test (lit_ci ''union'' (ws_plus (ci_prefix ''select''))) s"
proof -
  from assms obtain pre u ws sel post where s: "s = pre @ u @ ws @ sel @ post"
    and u: "map canonicalize u = map canonicalize ''union''"
    and ws: "ws \<noteq> []" "list_all is_space ws"
    and sel: "map canonicalize sel = map canonicalize ''select''"
    unfolding has_union_select_def by blast
  from ws obtain c ws' where w: "ws = c # ws'" "is_space c" "list_all is_space ws'"
    by (cases ws) auto
  have "ci_prefix ''select'' (sel @ post)"
    using sel by (rule ci_prefix_append)
  then have "ws_star (ci_prefix ''select'') (ws' @ sel @ post)"
    using w(3) by (rule_tac ws_star_spaces)
  then have tail: "ws_plus (ci_prefix ''select'') (ws @ sel @ post)"
    using w by (simp add: ws_plus_def)
  have head: "ci_prefix ''union'' (u @ ws @ sel @ post)"
    using u by (rule ci_prefix_append)
  have rest: "drop (length ''union'') (u @ ws @ sel @ post) = ws @ sel @ post"
    using u by (rule drop_canonical)
  have "lit_ci ''union'' (ws_plus (ci_prefix ''select'')) (u @ ws @ sel @ post)"
    unfolding lit_ci_def rest using head tail by blast
  then show ?thesis
    unfolding s by (rule regex_test_suffix)
qed

lemma block_comment_matches:
  assumes "has_block_comment s"
  shows "regex_test (lit ''/*'' (dot_star (startsWith ''*/''))) s"
proof -
  from assms obtain pre mid post where s: "s = pre @ ''/*'' @ mid @ ''*/'' @ post"
    and m: "\<forall>c \<in> set mid. \<not> is_line_terminator c"
    unfolding has_block_comment_def by blast
  have "startsWith ''*/'' (''*/'' @ post)"
    by (simp add: startsWith_def)
  with m have "dot_star (startsWith ''*/'') (mid @ ''*/'' @ post)"
    by (rule dot_star_run)
  then have "lit ''/*'' (dot_star (startsWith ''*/'')) (''/*'' @ mid @ ''*/'' @ post)"
    by (simp add: lit_def startsWith_def)
  then show ?thesis
    unfolding s by (rule regex_test_suffix)
qed

lemma dashes_space_matches:
  assumes "has_dashes_space s"
  shows "regex_test (lit ''--'' one_space) s"
proof -
  from assms obtain pre c post where s: "s = pre @ ''--'' @ c # post" and c: "is_space c"
    unfolding has_dashes_space_def by blast
  have "lit ''--'' one_space (''--'' @ c # post)"
    using c by (simp add: lit_def startsWith_def one_space_def)
  then show ?thesis
    unfolding s by (rule regex_test_suffix)
qed

lemma hash_matches:
  assumes "has_hash s"
  shows "regex_test (startsWith ''#'') s"
proof -
  from assms obtain pre post where s: "s = pre @ ''#'' @ post"
    by (auto simp: has_hash_def dest: split_list)
  have "startsWith ''#'' (''#'' @ post)"
    by (simp add: startsWith_def)
  then show ?thesis
    unfolding s by (rule regex_test_suffix)
qed

lemma injection_shape_matches:
  "injection_shape s \<Longrightarrow> list_ex (\<lambda>pattern. regex_test pattern s) injectionPatterns"
  unfolding injection_shape_def injectionPatterns_def
  using semicolon_keyword_matches union_select_matches block_comment_matches
    dashes_space_matches hash_matches
  by auto

text \<open>
  C3, as the code has it. A text of one of the injection shapes is rejected. The reason
  is "Potential SQL injection detected" when the text passes the two earlier checks, that
  is, when its trimmed, lower-cased form begins with \<open>select\<close> and it contains no entry of
  the denylist as a whole word; otherwise the reason is that of the earlier check.
\<close>

theorem C3_injection_shapes:
  assumes "injection_shape sql"
  shows "validateQuery sql = Inl (Error
           (if \<not> startsWith ''select'' (toLowerCase (trim sql))
            then ''Only SELECT statements are allowed''
            else case find (\<lambda>k. contains_whole_word k sql) blacklistedKeywords of
                   Some kw \<Rightarrow> ''Forbidden keyword detected: '' @ kw
                 | None \<Rightarrow> ''Potential SQL injection detected''))"
  using injection_shape_matches [OF assms]
  by (simp add: validateQuery_def find_blacklisted split: option.splits)

theorem C3_injection_shapes_witness:
  "injection_shape ''SELECT a FROM t -- x''
   \<and> validateQuery ''SELECT a FROM t -- x'' = Inl (Error ''Potential SQL injection detected'')"
proof -
  let ?sql = "''SELECT a FROM t -- x''"
  have "?sql = ''SELECT a FROM t '' @ ''--'' @ CHR '' '' # ''x'' \<and> is_space CHR '' ''"
    by simp
  then have "has_dashes_space ?sql"
    unfolding has_dashes_space_def by blast
  then have shape: "injection_shape ?sql"
    by (simp add: injection_shape_def)
  have sel: "startsWith ''select'' (toLowerCase (trim ?sql))"
    by (simp add: toLowerCase_def trim_def startsWith_def)
  have "find (\<lambda>keyword. keyword_test keyword (toLowerCase (trim ?sql))) blacklistedKeywords = None"
    by (simp add: validator_eval)
  then have none: "find (\<lambda>k. contains_whole_word k ?sql) blacklistedKeywords = None"
    by (simp add: find_blacklisted)
  from C3_injection_shapes [OF shape] sel none
  have "validateQuery ?sql = Inl (Error ''Potential SQL injection detected'')"
    by simp
  with shape show ?thesis
    by blast
qed

text \<open>
  C3 as stated fails in three ways. Two dashes that no white space follows are accepted;
  a block comment that spans a line break is accepted; and a semicolon followed by
  \<open>DROP\<close> is rejected by the denylist, with the denylist's reason.
\<close>

theorem C3_line_comment_counterexample:
  "''SELECT 1 --x'' = ''SELECT 1 '' @ ''--'' @ ''x''
   \<and> validateQuery ''SELECT 1 --x'' = Inr ()
   \<and> validateQuery (''SELECT 1 /*'' @ [CHR 0x0A] @ ''*/'') = Inr ()
   \<and> validateQuery ''SELECT 1; DROP TABLE t'' = Inl (Error ''Forbidden keyword detected: drop'')"
  by (simp add: validator_eval)

section \<open>Properties of the cache layer\<close>

lemma redis_of_count [simp]:
  "redis (count_request s) = redis s"
  "redis (count_hit b s) = redis s"
  "redis (count_miss b s) = redis s"
  "redis (count_error b s) = redis s"
  by (simp_all add: count_request_def count_hit_def count_miss_def count_error_def)

text \<open>
  How \<open>get\<close> moves the counters when metric tracking is on. Every call adds one to
  \<open>totalRequests\<close>. It adds one to \<open>misses\<close> alone when the store hands no value over and
  one to \<open>hits\<close> alone when a value is found and returned. When the value found is a
  string that fails JSON deserialization, both \<open>hits\<close> and \<open>errors\<close> grow by one: the hit
  is counted when the value is found, before it is parsed.
\<close>

lemma cacheService_get_metrics:
  assumes "trackMetrics opts"
  shows "metrics (snd (cacheService_get E key opts s)) =
         \<lparr>hits = hits (metrics s) + (if found E key s then 1 else 0),
          misses = misses (metrics s) + (if found E key s then 0 else 1),
          errors = errors (metrics s) + (if undecodable E key opts s then 1 else 0),
          totalRequests = totalRequests (metrics s) + 1\<rparr>"
  using assms
  by (auto simp: cacheService_get_def cacheService_get_try_def found_def undecodable_def
      this_del_def count_request_def count_hit_def count_miss_def count_error_def Let_def
      split: prod.splits jsval.splits option.splits sum.splits)

lemma greeting_undecodable:
  "trackMetrics default_get_options \<and> found demo_env ''greeting'' greeting_state \<and>
   undecodable demo_env ''greeting'' default_get_options greeting_state"
  by code_simp

text \<open>
  C7 at a stored string that is no JSON text. One \<open>get\<close>, with the counters at zero
  before it, leaves \<open>hits = 1\<close> and \<open>errors = 1\<close> for \<open>totalRequests = 1\<close>: two of the
  three counters move, and their sum exceeds the number of requests.
\<close>

theorem C7_two_counters:
  "metrics greeting_state = \<lparr>hits = 0, misses = 0, errors = 0, totalRequests = 0\<rparr>
   \<and> metrics (snd (cacheService_get demo_env ''greeting'' default_get_options greeting_state)) =
       \<lparr>hits = 1, misses = 0, errors = 1, totalRequests = 1\<rparr>"
  by code_simp

text \<open>
  The path of a stored string that is no JSON text, in every environment and state:
  \<open>get\<close> returns the fallback and leaves the store as it was.
\<close>

lemma undecodable_entry_stays:
  assumes "undecodable E key opts s"
  shows "fst (cacheService_get E key opts s) = fallback opts \<and>
         store (redis (snd (cacheService_get E key opts s))) = store (redis s)"
proof -
  from assms obtain str where v: "fst (redis_get E key (redis s)) = JStr str"
    and p: "parseJSON opts" "JSON_parse E str = None"
    by (auto simp: undecodable_def split: jsval.splits)
  from v have r: "snd (redis_get E key (redis s)) = redis s"
    by (auto simp: redis_get_def split: if_splits option.splits)
  show ?thesis
    using v p r
    by (simp add: cacheService_get_def cacheService_get_try_def this_del_def Let_def
        case_prod_beta)
qed

text \<open>
  C8 at a stored string that is no JSON text. The state is the one a \<open>set\<close> without
  \<open>stringifyJSON\<close> leaves. \<open>get\<close> returns the fallback and does not raise, but the entry
  is still in the store afterwards, and a second \<open>get\<close> meets it again: the cleanup calls
  \<open>this.del\<close>, which the class does not have.
\<close>

theorem C8_corrupted_entry_stays:
  "redis (snd (cacheService_set demo_env ''greeting'' (JStr ''hello'') 60
                 (default_set_options\<lparr>stringifyJSON := False\<rparr>) fresh_state))
     = redis greeting_state
   \<and> fst (cacheService_get demo_env ''greeting'' default_get_options greeting_state) = JNull
   \<and> store (redis (snd (cacheService_get demo_env ''greeting'' default_get_options greeting_state)))
        ''greeting'' = Some (quoted ''hello'')
   \<and> undecodable demo_env ''greeting'' default_get_options
        (snd (cacheService_get demo_env ''greeting'' default_get_options greeting_state))"
proof -
  have "redis (snd (cacheService_set demo_env ''greeting'' (JStr ''hello'') 60
                 (default_set_options\<lparr>stringifyJSON := False\<rparr>) fresh_state))
        = redis greeting_state"
    by (simp add: cacheService_set_def default_set_options_def fresh_state_def
        greeting_state_def redis_set_def demo_env_def)
  moreover have
    "fst (cacheService_get demo_env ''greeting'' default_get_options greeting_state) = JNull"
    by code_simp
  moreover have
    "store (redis (snd (cacheService_get demo_env ''greeting'' default_get_options greeting_state)))
        ''greeting'' = Some (quoted ''hello'')"
    by code_simp
  moreover have
    "undecodable demo_env ''greeting'' default_get_options
        (snd (cacheService_get demo_env ''greeting'' default_get_options greeting_state))"
    by code_simp
  ultimately show ?thesis by blast
qed


lemma redis_get_other_key:
  "k' \<noteq> key \<Longrightarrow>
   redis_get E key (r\<lparr>store := (store r)(k' \<mapsto> x)\<rparr>) =
     (fst (redis_get E key r),
      (snd (redis_get E key r))\<lparr>store := (store (snd (redis_get E key r)))(k' \<mapsto> x)\<rparr>)"
  by (auto simp: redis_get_def fun_upd_twist split: option.splits)

lemma cacheService_get_value:
  "fst (cacheService_get E key gopts s) =
     (case fst (redis_get E key (redis s)) of
        JNull \<Rightarrow> fallback gopts
      | JStr text \<Rightarrow> if parseJSON gopts
                      then (case JSON_parse E text of Some j \<Rightarrow> j | None \<Rightarrow> fallback gopts)
                      else JStr text
      | v \<Rightarrow> v)"
  by (simp add: cacheService_get_def cacheService_get_try_def this_del_def Let_def case_prod_beta
      split: jsval.splits option.splits)

text \<open>
  C10, as the code has it. Let the serialized form of the value be a text longer than
  \<open>maxSize\<close>, with \<open>compress\<close> on, the store connected and answering, and a positive
  expiry. Then \<open>set\<close> answers true and writes the compressed text under \<open>key:compressed\<close>
  and nothing else: the entry under the requested key is what it was, and a \<open>get\<close> of the
  requested key returns what it returned before the \<open>set\<close>. Where the key was absent
  before, the \<open>get\<close> finds no value (a miss) and returns the fallback; where it held an
  entry, the \<open>get\<close> still returns that older entry.
\<close>

theorem C10_compressed_key:
  assumes ser: "(if stringifyJSON opts then map_option JStr (JSON_stringify E v) else Some v)
                  = Some (JStr text)"
    and big: "int (length text) > maxSize opts"
    and comp: "compress opts"
    and up: "isConnected (redis s)" "\<not> client_fails (redis s)" "0 < ttl"
    and enc: "JSON_stringify E (JStr (gzip_base64 E text)) = Some stored"
  shows "cacheService_set E key v ttl opts s =
           (True, s\<lparr>redis := (redis s)\<lparr>store :=
                      (store (redis s))(key @ '':compressed'' \<mapsto> stored)\<rparr>\<rparr>)
         \<and> store (redis (snd (cacheService_set E key v ttl opts s))) key = store (redis s) key
         \<and> fst (cacheService_get E key gopts (snd (cacheService_set E key v ttl opts s)))
             = fst (cacheService_get E key gopts s)
         \<and> (store (redis s) key = None \<longrightarrow>
              fst (cacheService_get E key gopts (snd (cacheService_set E key v ttl opts s)))
                = fallback gopts
              \<and> \<not> found E key (snd (cacheService_set E key v ttl opts s)))"
proof -
  let ?s' = "s\<lparr>redis := (redis s)\<lparr>store :=
               (store (redis s))(key @ '':compressed'' \<mapsto> stored)\<rparr>\<rparr>"
  have set_eq: "cacheService_set E key v ttl opts s = (True, ?s')"
    using ser big comp up enc
    by (simp add: cacheService_set_def redis_set_def split: if_splits)
  have neq: "key @ '':compressed'' \<noteq> key" by simp
  have v_same: "fst (cacheService_get E key gopts ?s') = fst (cacheService_get E key gopts s)"
    by (simp add: cacheService_get_value redis_get_other_key [OF neq])
  have miss: "store (redis s) key = None \<Longrightarrow>
      fst (cacheService_get E key gopts ?s') = fallback gopts \<and> \<not> found E key ?s'"
    by (simp add: cacheService_get_value found_def redis_get_def)
  show ?thesis
    using set_eq v_same miss by simp
qed

theorem C10_compressed_key_witness:
  "int (length (quoted ''a long report'')) > maxSize compressing_options
   \<and> compress compressing_options
   \<and> store (redis fresh_state) ''report'' = None
   \<and> fst (cacheService_set demo_env ''report'' (JStr ''a long report'') 300
            compressing_options fresh_state) = True
   \<and> store (redis (snd (cacheService_set demo_env ''report'' (JStr ''a long report'') 300
            compressing_options fresh_state))) ''report'' = None
   \<and> store (redis (snd (cacheService_set demo_env ''report'' (JStr ''a long report'') 300
            compressing_options fresh_state))) ''report:compressed''
        = Some (quoted (''gz'' @ quoted ''a long report''))
   \<and> fst (cacheService_get demo_env ''report'' default_get_options
            (snd (cacheService_set demo_env ''report'' (JStr ''a long report'') 300
               compressing_options fresh_state))) = JNull"
proof -
  have ser: "(if stringifyJSON compressing_options
              then map_option JStr (JSON_stringify demo_env (JStr ''a long report''))
              else Some (JStr ''a long report'')) = Some (JStr (quoted ''a long report''))"
    by (simp add: compressing_options_def demo_env_def)
  have big: "int (length (quoted ''a long report'')) > maxSize compressing_options"
    by code_simp
  have comp: "compress compressing_options"
    by (simp add: compressing_options_def)
  have up: "isConnected (redis fresh_state)" "\<not> client_fails (redis fresh_state)" "0 < (300::int)"
    by (simp_all add: fresh_state_def)
  have enc: "JSON_stringify demo_env (JStr (gzip_base64 demo_env (quoted ''a long report'')))
               = Some (quoted (''gz'' @ quoted ''a long report''))"
    by (simp add: demo_env_def)
  have absent: "store (redis fresh_state) ''report'' = None"
    by (simp add: fresh_state_def)
  have fb: "fallback default_get_options = JNull"
    by (simp add: default_get_options_def)
  let ?S = "cacheService_set demo_env ''report'' (JStr ''a long report'') 300
              compressing_options fresh_state"
  note th = C10_compressed_key [OF ser big comp up enc, of "''report''" default_get_options]
  from th have eq: "?S = (True, fresh_state\<lparr>redis := (redis fresh_state)\<lparr>store :=
       (store (redis fresh_state))(''report'' @ '':compressed'' \<mapsto>
          quoted (''gz'' @ quoted ''a long report''))\<rparr>\<rparr>)"
    by blast
  have c1: "fst ?S = True"
    by (simp add: eq)
  from th absent have c2: "store (redis (snd ?S)) ''report'' = None"
    by metis
  have c3: "store (redis (snd ?S)) ''report:compressed''
              = Some (quoted (''gz'' @ quoted ''a long report''))"
    by (simp add: eq)
  from th absent
  have "fst (cacheService_get demo_env ''report'' default_get_options (snd ?S))
          = fallback default_get_options"
    by blast
  then have c4: "fst (cacheService_get demo_env ''report'' default_get_options (snd ?S)) = JNull"
    by (simp only: fb)
  from big comp absent c1 c2 c3 c4 show ?thesis
    by blast
qed


text \<open>
  C10 as stated fails where the requested key holds an entry already. After
  \<open>set('report', 7, 300)\<close> the store holds an entry under \<open>report\<close>; a later \<open>set\<close> of a
  long text under the same key, with compression, answers true and goes to
  \<open>report:compressed\<close>, and the \<open>get\<close> of \<open>report\<close> that follows is a hit on the older
  value 7, not a miss.
\<close>

theorem C10_older_entry_counterexample:
  "store (redis report_state) ''report'' = Some (quoted (''7''))
   \<and> int (length (quoted ''a long report'')) > maxSize compressing_options
   \<and> compress compressing_options
   \<and> fst (cacheService_set demo_env ''report'' (JStr ''a long report'') 300
            compressing_options report_state) = True
   \<and> store (redis (snd (cacheService_set demo_env ''report'' (JStr ''a long report'') 300
            compressing_options report_state))) ''report:compressed''
        = Some (quoted (''gz'' @ quoted ''a long report''))
   \<and> fst (cacheService_get demo_env ''report'' default_get_options
            (snd (cacheService_set demo_env ''report'' (JStr ''a long report'') 300
               compressing_options report_state))) = JNum 7
   \<and> found demo_env ''report''
        (snd (cacheService_set demo_env ''report'' (JStr ''a long report'') 300
               compressing_options report_state))
   \<and> metrics (snd (cacheService_get demo_env ''report'' default_get_options
            (snd (cacheService_set demo_env ''report'' (JStr ''a long report'') 300
               compressing_options report_state))))
        = \<lparr>hits = 1, misses = 0, errors = 0, totalRequests = 1\<rparr>"
proof -
  have before: "report_state =
      \<lparr>redis = \<lparr>isConnected = True, client_fails = False,
                store = [''report'' \<mapsto> quoted ''7'']\<rparr>,
       metrics = \<lparr>hits = 0, misses = 0, errors = 0, totalRequests = 0\<rparr>\<rparr>"
    by (simp add: report_state_def cache_eval fresh_state_def)
  have big: "int (length (quoted ''a long report'')) > maxSize compressing_options"
    by code_simp
  have comp: "compress compressing_options"
    by (simp add: compressing_options_def)
  have after: "cacheService_set demo_env ''report'' (JStr ''a long report'') 300
            compressing_options report_state =
      (True, \<lparr>redis = \<lparr>isConnected = True, client_fails = False,
                store = [''report'' \<mapsto> quoted ''7'',
                         ''report:compressed'' \<mapsto> quoted (''gz'' @ quoted ''a long report'')]\<rparr>,
       metrics = \<lparr>hits = 0, misses = 0, errors = 0, totalRequests = 0\<rparr>\<rparr>)"
    unfolding before by (simp add: cache_eval compressing_options_def)
  have c1: "store (redis report_state) ''report'' = Some (quoted (''7''))"
    unfolding before by simp
  have c4: "fst (cacheService_set demo_env ''report'' (JStr ''a long report'') 300
            compressing_options report_state) = True"
    unfolding after by simp
  have c5: "store (redis (snd (cacheService_set demo_env ''report'' (JStr ''a long report'') 300
            compressing_options report_state))) ''report:compressed''
        = Some (quoted (''gz'' @ quoted ''a long report''))"
    unfolding after by simp
  have c6: "fst (cacheService_get demo_env ''report'' default_get_options
            (snd (cacheService_set demo_env ''report'' (JStr ''a long report'') 300
               compressing_options report_state))) = JNum 7"
    unfolding after by (simp add: cache_eval)
  have c7: "found demo_env ''report''
        (snd (cacheService_set demo_env ''report'' (JStr ''a long report'') 300
               compressing_options report_state))"
    unfolding after by (simp add: found_def cache_eval)
  have c8: "metrics (snd (cacheService_get demo_env ''report'' default_get_options
            (snd (cacheService_set demo_env ''report'' (JStr ''a long report'') 300
               compressing_options report_state))))
        = \<lparr>hits = 1, misses = 0, errors = 0, totalRequests = 1\<rparr>"
    unfolding after by (simp add: cache_eval)
  from c1 big comp c4 c5 c6 c7 c8 show ?thesis
    by blast
qed


section \<open>Properties of the pagination rewriter\<close>

lemma digit_not_space: "is_digit c \<Longrightarrow> \<not> is_space c"
  by (auto simp: is_digit_def is_space_def Let_def)

lemma same_word_length: "same_word w kw \<Longrightarrow> length w = length kw"
  unfolding same_word_def by (metis length_map)

lemma same_word_solid: "same_word w kw \<Longrightarrow> plain_word kw \<Longrightarrow> solid w"
proof -
  assume a: "same_word w kw" "plain_word kw"
  then have "list_all is_word_char w"
    unfolding same_word_def plain_word_def using canonical_word by blast
  moreover from a have "w \<noteq> []"
    using same_word_length [of w kw] by (auto simp: plain_word_def)
  ultimately show ?thesis
    by (auto simp: solid_def list_all_iff dest: space_not_word)
qed

lemma digits_solid: "digits ds \<Longrightarrow> solid ds"
  by (auto simp: digits_def solid_def list_all_iff dest: digit_not_space)

lemma limit_plain: "plain_word ''limit''" and offset_plain: "plain_word ''offset''"
  by (simp_all add: plain_word_def)

lemma dropWhile_run:
  "list_all P ws \<Longrightarrow> rest = [] \<or> \<not> P (hd rest) \<Longrightarrow> dropWhile P (ws @ rest) = rest"
  by (induction ws) (auto simp: dropWhile_eq_self_iff)

lemma takeWhile_run:
  "list_all P ws \<Longrightarrow> rest = [] \<or> \<not> P (hd rest) \<Longrightarrow> takeWhile P (ws @ rest) = ws"
  by (induction ws) (auto simp: takeWhile_eq_Nil_iff)

lemma solid_hd: "solid w \<Longrightarrow> w @ rest \<noteq> [] \<and> \<not> is_space (hd (w @ rest))"
  by (cases w) (auto simp: solid_def)

lemma splitw_nonempty: "splitw s \<noteq> []"
  by (induction s) (auto split: list.splits)

lemma splitw_split: "is_space c \<Longrightarrow> splitw (x @ c # y) = splitw x @ splitw y"
proof (induction x)
  case Nil
  then show ?case by simp
next
  case (Cons a x)
  then show ?case
    using splitw_nonempty [of x] by (cases "splitw x") auto
qed

lemma splitw_solid: "\<forall>c \<in> set w. \<not> is_space c \<Longrightarrow> splitw w = [w]"
  by (induction w) auto

lemma words_spaces: "list_all is_space ws \<Longrightarrow> words_of (ws @ s) = words_of s"
  by (induction ws) (auto simp: words_of_def)

lemma words_solid: "solid w \<Longrightarrow> words_of w = [w]"
  by (simp add: words_of_def solid_def splitw_solid)

lemma words_app_spaces: "spaces ws \<Longrightarrow> words_of (x @ ws @ s) = words_of x @ words_of s"
proof -
  assume "spaces ws"
  then obtain c ws' where ws: "ws = c # ws'" "is_space c" "list_all is_space ws'"
    by (cases ws) (auto simp: spaces_def)
  have "words_of (x @ c # (ws' @ s)) = words_of x @ words_of (ws' @ s)"
    using ws(2) by (simp add: words_of_def splitw_split)
  then show ?thesis
    using ws by (simp add: words_spaces)
qed

lemma words_empty: "words_of [] = []"
  by (simp add: words_of_def)

lemma words_some: "\<exists>c \<in> set s. \<not> is_space c \<Longrightarrow> words_of s \<noteq> []"
proof (induction s)
  case Nil
  then show ?case by simp
next
  case (Cons a s)
  show ?case
  proof (cases "is_space a")
    case True
    with Cons show ?thesis by (auto simp: words_of_def)
  next
    case False
    then show ?thesis
      using splitw_nonempty [of s] by (cases "splitw s") (auto simp: words_of_def)
  qed
qed


lemma ci_prefix_same_word:
  "ci_prefix kw s \<longleftrightarrow> (\<exists>mid rest. s = mid @ rest \<and> same_word mid kw)"
  by (simp add: ci_prefix_iff same_word_def)

lemma ci_prefix_take:
  assumes "ci_prefix kw s"
  shows "same_word (take (length kw) s) kw \<and> s = take (length kw) s @ drop (length kw) s"
proof -
  from assms obtain mid rest where s: "s = mid @ rest" and m: "same_word mid kw"
    by (auto simp: ci_prefix_same_word)
  from m have "length mid = length kw" by (rule same_word_length)
  with s have "take (length kw) s = mid" by simp
  with m have "same_word (take (length kw) s) kw" by simp
  then show ?thesis by simp
qed

lemma length_limit: "length ''limit'' = 5" and length_offset: "length ''offset'' = 6"
  by simp_all

lemma takeWhile_nonempty: "dropWhile P t \<noteq> t \<Longrightarrow> takeWhile P t \<noteq> []"
  by (metis append_Nil takeWhile_dropWhile_id)

lemma leading_spaces: "dropWhile is_space t \<noteq> t \<Longrightarrow> spaces (takeWhile is_space t)"
  by (auto simp: spaces_def list_all_iff takeWhile_nonempty dest: set_takeWhileD)

lemma offset_clause_tail: "offset_clause t \<Longrightarrow> offset_tail t"
proof -
  assume "offset_clause t"
  then obtain w3 off w4 ds2 where t: "t = w3 @ off @ w4 @ ds2"
    and w3: "spaces w3" and off: "same_word off ''offset''" and w4: "spaces w4" and d: "digits ds2"
    unfolding offset_clause_def by blast
  have so: "solid off" using off offset_plain by (rule same_word_solid)
  have sd: "solid ds2" using d by (rule digits_solid)
  have r1: "dropWhile is_space t = off @ w4 @ ds2"
    unfolding t using w3 solid_hd [OF so] by (intro dropWhile_run) (auto simp: spaces_def)
  have ne1: "off @ w4 @ ds2 \<noteq> t"
    using w3 by (auto simp: t spaces_def)
  have pre: "ci_prefix ''offset'' (off @ w4 @ ds2)"
    using off by (auto simp: ci_prefix_same_word)
  have len: "length off = 6"
    using same_word_length [OF off] by simp
  have r2: "drop 6 (off @ w4 @ ds2) = w4 @ ds2"
    using len by simp
  have r3: "dropWhile is_space (w4 @ ds2) = ds2"
    using w4 solid_hd [OF sd, of "[]"] by (intro dropWhile_run) (auto simp: spaces_def)
  have ne3: "ds2 \<noteq> w4 @ ds2"
    using w4 by (auto simp: spaces_def)
  show "offset_tail t"
    unfolding offset_tail_def Let_def r1 r2 r3
    using ne1 pre ne3 d by (simp add: digits_def)
qed

lemma offset_tail_clause: "offset_tail t \<Longrightarrow> offset_clause t"
proof -
  assume a: "offset_tail t"
  let ?w3 = "takeWhile is_space t" and ?r1 = "dropWhile is_space t"
  let ?off = "take 6 ?r1" and ?r2 = "drop 6 ?r1"
  let ?w4 = "takeWhile is_space ?r2" and ?r3 = "dropWhile is_space ?r2"
  from a have ne1: "?r1 \<noteq> t" and pre: "ci_prefix ''offset'' ?r1" and ne3: "?r3 \<noteq> ?r2"
    and d: "?r3 \<noteq> []" "list_all is_digit ?r3"
    by (simp_all add: offset_tail_def Let_def)
  have t: "t = ?w3 @ ?r1" by simp
  have w3: "spaces ?w3"
    using ne1 by (rule leading_spaces)
  have off: "same_word ?off ''offset''" and r1: "?r1 = ?off @ ?r2"
    using ci_prefix_take [OF pre, unfolded length_offset] by blast+
  have r2: "?r2 = ?w4 @ ?r3" by simp
  have w4: "spaces ?w4"
    using ne3 by (rule leading_spaces)
  have "t = ?w3 @ ?off @ ?w4 @ ?r3"
    using t r1 r2 by metis
  with w3 off w4 d show "offset_clause t"
    unfolding offset_clause_def digits_def by blast
qed

lemma offset_tail_iff: "offset_tail t \<longleftrightarrow> offset_clause t"
  using offset_clause_tail offset_tail_clause by blast

lemma offset_clause_hd: "offset_clause t \<Longrightarrow> t \<noteq> [] \<and> is_space (hd t)"
  unfolding offset_clause_def by (auto simp: spaces_def neq_Nil_conv)

lemma limit_clause_at: "limit_clause t ds \<Longrightarrow> limit_at t = Some ds"
proof -
  assume "limit_clause t ds"
  then obtain w1 lim w2 tail where t: "t = w1 @ lim @ w2 @ ds @ tail"
    and w1: "spaces w1" and lim: "same_word lim ''limit''" and w2: "spaces w2" and d: "digits ds"
    and tail: "tail = [] \<or> offset_clause tail"
    unfolding limit_clause_def by blast
  have sl: "solid lim" using lim limit_plain by (rule same_word_solid)
  have sd: "solid ds" using d by (rule digits_solid)
  have r1: "dropWhile is_space t = lim @ w2 @ ds @ tail"
    unfolding t using w1 solid_hd [OF sl] by (intro dropWhile_run) (auto simp: spaces_def)
  have ne1: "lim @ w2 @ ds @ tail \<noteq> t"
    using w1 by (auto simp: t spaces_def)
  have pre: "ci_prefix ''limit'' (lim @ w2 @ ds @ tail)"
    using lim by (auto simp: ci_prefix_same_word)
  have len: "length lim = 5"
    using same_word_length [OF lim] by simp
  have r2: "drop 5 (lim @ w2 @ ds @ tail) = w2 @ ds @ tail"
    using len by simp
  have r3: "dropWhile is_space (w2 @ ds @ tail) = ds @ tail"
    using w2 solid_hd [OF sd] by (intro dropWhile_run) (auto simp: spaces_def)
  have ne3: "ds @ tail \<noteq> w2 @ ds @ tail"
    using w2 by (auto simp: spaces_def)
  have nd: "tail = [] \<or> \<not> is_digit (hd tail)"
    using tail offset_clause_hd digit_not_space by blast
  have tk: "takeWhile is_digit (ds @ tail) = ds"
    using d nd by (intro takeWhile_run) (auto simp: digits_def)
  have dr: "dropWhile is_digit (ds @ tail) = tail"
    using d nd by (intro dropWhile_run) (auto simp: digits_def)
  show "limit_at t = Some ds"
    unfolding limit_at_def Let_def r1 r2 r3 tk dr
    using ne1 pre ne3 d tail by (simp add: digits_def offset_tail_iff)
qed

lemma limit_at_clause: "limit_at t = Some ds \<Longrightarrow> limit_clause t ds"
proof -
  assume a: "limit_at t = Some ds"
  let ?w1 = "takeWhile is_space t" and ?r1 = "dropWhile is_space t"
  let ?lim = "take 5 ?r1" and ?r2 = "drop 5 ?r1"
  let ?w2 = "takeWhile is_space ?r2" and ?r3 = "dropWhile is_space ?r2"
  let ?ds = "takeWhile is_digit ?r3" and ?r4 = "dropWhile is_digit ?r3"
  from a have ne1: "?r1 \<noteq> t" and pre: "ci_prefix ''limit'' ?r1" and ne3: "?r3 \<noteq> ?r2"
    and d: "?ds \<noteq> []" and tail: "?r4 = [] \<or> offset_tail ?r4" and ds: "ds = ?ds"
    by (auto simp: limit_at_def Let_def split: if_splits)
  have t: "t = ?w1 @ ?r1" by simp
  have w1: "spaces ?w1"
    using ne1 by (rule leading_spaces)
  have lim: "same_word ?lim ''limit''" and r1: "?r1 = ?lim @ ?r2"
    using ci_prefix_take [OF pre, unfolded length_limit] by blast+
  have r2: "?r2 = ?w2 @ ?r3" by simp
  have w2: "spaces ?w2"
    using ne3 by (rule leading_spaces)
  have r3: "?r3 = ?ds @ ?r4" by simp
  have dd: "digits ?ds"
    using d by (auto simp: digits_def list_all_iff dest: set_takeWhileD)
  have "t = ?w1 @ ?lim @ ?w2 @ ?ds @ ?r4"
    using t r1 r2 r3 by metis
  with w1 lim w2 dd tail show "limit_clause t ds"
    unfolding limit_clause_def ds offset_tail_iff by blast
qed


lemma words_offset_clause:
  assumes "offset_clause t"
  shows "\<exists>off d2. same_word off ''offset'' \<and> words_of t = [off, d2]"
proof -
  from assms obtain w3 off w4 ds2 where t: "t = w3 @ off @ w4 @ ds2"
    and w3: "spaces w3" and off: "same_word off ''offset''" and w4: "spaces w4" and d: "digits ds2"
    unfolding offset_clause_def by blast
  have so: "solid off" using off offset_plain by (rule same_word_solid)
  have sd: "solid ds2" using d by (rule digits_solid)
  have "words_of t = words_of ([] @ w3 @ off @ w4 @ ds2)"
    by (simp add: t)
  also have "\<dots> = words_of [] @ words_of (off @ w4 @ ds2)"
    using w3 by (rule words_app_spaces)
  also have "words_of (off @ w4 @ ds2) = words_of off @ words_of ds2"
    using w4 by (rule words_app_spaces)
  finally have "words_of t = [off, ds2]"
    by (simp add: words_empty words_solid [OF so] words_solid [OF sd])
  with off show ?thesis by blast
qed

lemma words_limit_clause:
  assumes "limit_clause t ds"
  shows "\<exists>lim. same_word lim ''limit'' \<and>
           (words_of t = [lim, ds] \<or>
            (\<exists>off d2. same_word off ''offset'' \<and> words_of t = [lim, ds, off, d2]))"
proof -
  from assms obtain w1 lim w2 tail where t: "t = w1 @ lim @ w2 @ ds @ tail"
    and w1: "spaces w1" and lim: "same_word lim ''limit''" and w2: "spaces w2" and d: "digits ds"
    and tail: "tail = [] \<or> offset_clause tail"
    unfolding limit_clause_def by blast
  have sl: "solid lim" using lim limit_plain by (rule same_word_solid)
  have sd: "solid ds" using d by (rule digits_solid)
  have "words_of t = words_of ([] @ w1 @ lim @ w2 @ ds @ tail)"
    by (simp add: t)
  also have "\<dots> = words_of [] @ words_of (lim @ w2 @ ds @ tail)"
    using w1 by (rule words_app_spaces)
  also have "words_of (lim @ w2 @ ds @ tail) = words_of lim @ words_of (ds @ tail)"
    using w2 by (rule words_app_spaces)
  finally have front: "words_of t = lim # words_of (ds @ tail)"
    by (simp add: words_empty words_solid [OF sl])
  from tail show ?thesis
  proof
    assume "tail = []"
    with front have "words_of t = [lim, ds]"
      by (simp add: words_solid [OF sd])
    with lim show ?thesis by blast
  next
    assume oc: "offset_clause tail"
    then obtain off d2 where off: "same_word off ''offset''" and wt: "words_of tail = [off, d2]"
      using words_offset_clause by blast
    from oc obtain w3 rest where tl: "tail = w3 @ rest" and w3: "spaces w3"
      unfolding offset_clause_def by blast
    have "words_of (ds @ w3 @ rest) = words_of ds @ words_of rest"
      using w3 by (rule words_app_spaces)
    moreover have "words_of ([] @ w3 @ rest) = words_of [] @ words_of rest"
      using w3 by (rule words_app_spaces)
    ultimately have "words_of (ds @ tail) = ds # words_of tail"
      by (simp add: tl words_empty words_solid [OF sd])
    with front wt have "words_of t = [lim, ds, off, d2]"
      by simp
    with lim off show ?thesis by blast
  qed
qed

lemma limit_clause_spaces: "limit_clause t ds \<Longrightarrow> \<exists>w rest. t = w @ rest \<and> spaces w"
  unfolding limit_clause_def by blast

lemma limit_not_offset: "same_word w ''limit'' \<Longrightarrow> same_word w ''offset'' \<Longrightarrow> False"
  by (simp add: same_word_def)

lemma no_earlier_match:
  assumes body: "body \<noteq> []" "\<not> is_space (last body)" and clause: "limit_clause t ds"
  shows "limit_at (body @ t) = None"
proof (rule ccontr)
  assume "limit_at (body @ t) \<noteq> None"
  then obtain ds' where "limit_at (body @ t) = Some ds'"
    by auto
  then have early: "limit_clause (body @ t) ds'"
    by (rule limit_at_clause)
  from clause obtain w rest where t: "t = w @ rest" and w: "spaces w"
    using limit_clause_spaces by blast
  have "words_of (body @ w @ rest) = words_of body @ words_of rest"
    using w by (rule words_app_spaces)
  moreover have "words_of ([] @ w @ rest) = words_of [] @ words_of rest"
    using w by (rule words_app_spaces)
  ultimately have join: "words_of (body @ t) = words_of body @ words_of t"
    by (simp add: t words_empty)
  from body have "\<exists>c \<in> set body. \<not> is_space c"
    using last_in_set by blast
  then have some: "words_of body \<noteq> []"
    by (rule words_some)
  from words_limit_clause [OF clause] obtain lim where lim: "same_word lim ''limit''"
    and wt: "words_of t = [lim, ds] \<or>
             (\<exists>off d2. same_word off ''offset'' \<and> words_of t = [lim, ds, off, d2])"
    by blast
  from words_limit_clause [OF early] obtain lim' where
    we: "words_of (body @ t) = [lim', ds'] \<or>
         (\<exists>off d2. same_word off ''offset'' \<and> words_of (body @ t) = [lim', ds', off, d2])"
    by blast
  from some obtain b bs where b: "words_of body = b # bs"
    by (cases "words_of body") auto
  from wt we join b have "same_word lim ''offset''"
    by (auto simp: append_eq_Cons_conv Cons_eq_append_conv)
  with lim show False
    by (rule limit_not_offset)
qed

lemma trailing_limit_match:
  "trailing_limit clean body ds \<Longrightarrow> limit_match clean = Some (body, ds)"
proof -
  assume "trailing_limit clean body ds"
  then obtain t where clean: "clean = body @ t" and clause: "limit_clause t ds"
    and edge: "body = [] \<or> \<not> is_space (last body)"
    unfolding trailing_limit_def by blast
  from clause have at: "limit_at t = Some ds"
    by (rule limit_clause_at)
  from clause have tne: "t \<noteq> []"
    using limit_clause_spaces by (auto simp: spaces_def)
  from edge have "limit_match (body @ t) = Some (body, ds)"
  proof (induction body)
    case Nil
    from tne at show ?case
      by (cases t) simp_all
  next
    case (Cons c body)
    then have "\<not> is_space (last (c # body))"
      by simp
    then have none: "limit_at ((c # body) @ t) = None"
      using clause by (intro no_earlier_match) simp_all
    from Cons.prems have "body = [] \<or> \<not> is_space (last body)"
      by (auto split: if_splits)
    then have "limit_match (body @ t) = Some (body, ds)"
      by (rule Cons.IH)
    with none show ?case
      by simp
  qed
  with clean show ?thesis by simp
qed

lemma limit_clause_Cons_space:
  assumes "limit_clause t ds" "is_space c"
  shows "limit_clause (c # t) ds"
proof -
  from assms(1) obtain w1 lim w2 tail where t: "t = w1 @ lim @ w2 @ ds @ tail"
    and w1: "spaces w1" and rest: "same_word lim ''limit''" "spaces w2" "digits ds"
      "tail = [] \<or> offset_clause tail"
    unfolding limit_clause_def by blast
  have "c # t = (c # w1) @ lim @ w2 @ ds @ tail"
    by (simp add: t)
  moreover have "spaces (c # w1)"
    using w1 assms(2) by (simp add: spaces_def)
  ultimately show ?thesis
    unfolding limit_clause_def using rest by blast
qed

lemma limit_match_trailing:
  "limit_match clean = Some (body, ds) \<Longrightarrow> trailing_limit clean body ds"
proof (induction clean arbitrary: body)
  case Nil
  then show ?case by simp
next
  case (Cons c cs)
  show ?case
  proof (cases "limit_at (c # cs)")
    case (Some ds')
    with Cons.prems have "body = []" "ds' = ds"
      by simp_all
    with Some have "limit_clause (c # cs) ds" "body = []"
      using limit_at_clause by simp_all
    then show ?thesis
      unfolding trailing_limit_def by simp
  next
    case None
    with Cons.prems obtain body' where m: "limit_match cs = Some (body', ds)" and b: "body = c # body'"
      by (auto split: option.splits)
    from Cons.IH [OF m] obtain t where cs: "cs = body' @ t" and clause: "limit_clause t ds"
      and edge: "body' = [] \<or> \<not> is_space (last body')"
      unfolding trailing_limit_def by blast
    have "\<not> is_space (last (c # body'))"
    proof (cases body')
      case Nil
      show ?thesis
      proof
        assume "is_space (last (c # body'))"
        with Nil have "is_space c" by simp
        with clause have "limit_clause (c # t) ds"
          by (rule limit_clause_Cons_space)
        then have "limit_at (c # t) = Some ds"
          by (rule limit_clause_at)
        with None cs Nil show False by simp
      qed
    next
      case (Cons a list)
      with edge show ?thesis by simp
    qed
    with cs clause b show ?thesis
      unfolding trailing_limit_def by auto
  qed
qed

lemma trailing_limit_iff:
  "trailing_limit clean body ds \<longleftrightarrow> limit_match clean = Some (body, ds)"
  using trailing_limit_match limit_match_trailing by blast

lemma no_trailing_limit_iff:
  "(\<forall>body ds. \<not> trailing_limit clean body ds) \<longleftrightarrow> limit_match clean = None"
  by (cases "limit_match clean") (auto simp: trailing_limit_iff)

lemma strip_semicolons_snoc:
  "strip_semicolons (xs @ [x]) = (if x = CHR 0x3B then strip_semicolons xs else xs @ [x])"
  by (simp add: strip_semicolons_def)

lemma strip_semicolons_run:
  "\<exists>k. s = strip_semicolons s @ replicate k CHR 0x3B"
proof (induction s rule: rev_induct)
  case Nil
  then show ?case by (simp add: strip_semicolons_def)
next
  case (snoc x xs)
  show ?case
  proof (cases "x = CHR 0x3B")
    case True
    from snoc obtain k where "xs = strip_semicolons xs @ replicate k CHR 0x3B"
      by blast
    then have "xs @ [x] = (strip_semicolons xs @ replicate k CHR 0x3B) @ [x]"
      by (rule arg_cong [of xs _ "\<lambda>l. l @ [x]"])
    also have "\<dots> = strip_semicolons (xs @ [x]) @ replicate (Suc k) CHR 0x3B"
      using True by (simp add: strip_semicolons_snoc replicate_append_same)
    finally show ?thesis by blast
  next
    case False
    then have "xs @ [x] = strip_semicolons (xs @ [x]) @ replicate 0 CHR 0x3B"
      by (simp add: strip_semicolons_snoc)
    then show ?thesis by blast
  qed
qed

lemma strip_semicolons_end:
  "strip_semicolons s = [] \<or> last (strip_semicolons s) \<noteq> CHR 0x3B"
  by (induction s rule: rev_induct) (simp_all add: strip_semicolons_snoc, simp add: strip_semicolons_def)

lemma digit_no_sign:
  "is_digit c \<Longrightarrow> c \<noteq> CHR ''-'' \<and> c \<noteq> CHR ''+'' \<and> c \<noteq> CHR ''x'' \<and> c \<noteq> CHR ''X''"
  by (auto simp: is_digit_def Let_def)

lemma parseInt_digits: "digits ds \<Longrightarrow> parseInt_string ds = Num (digits_value 10 ds)"
proof -
  assume d: "digits ds"
  then obtain c cs where ds: "ds = c # cs" and c: "is_digit c" and every: "list_all is_digit cs"
    by (cases ds) (auto simp: digits_def)
  have sp: "dropWhile is_space ds = ds"
    using c digit_not_space by (simp add: ds)
  have sign: "\<not> startsWith ''-'' ds" "\<not> startsWith ''+'' ds"
    using digit_no_sign [OF c] by (simp_all add: startsWith_def ds)
  have hex: "\<not> startsWith ''0x'' ds" "\<not> startsWith ''0X'' ds"
    using every digit_no_sign by (cases cs; simp add: startsWith_def ds)+
  have run: "takeWhile is_digit ds = ds"
    using c every by (simp add: ds takeWhile_eq_all_conv list_all_iff)
  show ?thesis
    using sp sign hex run by (simp add: parseInt_string_def Let_def ds)
qed

lemma trailing_limit_digits: "trailing_limit clean body ds \<Longrightarrow> digits ds"
  unfolding trailing_limit_def limit_clause_def by blast

text \<open>
  The rewriter on every text, for numbers in the exact range. It works on the trimmed
  statement without its final run of semicolons. If that text ends in a limit clause, the
  clause and the white space before it are replaced; otherwise the text is kept. What is
  appended is \<open>LIMIT e OFFSET o\<close> for PostgreSQL and \<open>LIMIT o, e\<close> otherwise, where \<open>e\<close> is
  the smaller of the clause's number and the requested limit, or the requested limit when
  there is no clause, and \<open>o\<close> is the offset, written also when it is zero.
\<close>

lemma addPaginationToSQL_rewrite:
  assumes "exact limit" and "exact offset"
  shows
  "(\<exists>k. trim sql = strip_semicolons (trim sql) @ replicate k CHR 0x3B)
   \<and> (strip_semicolons (trim sql) = [] \<or> last (strip_semicolons (trim sql)) \<noteq> CHR 0x3B)
   \<and> (\<forall>body ds. trailing_limit (strip_semicolons (trim sql)) body ds \<and>
                 safe (digits_value 10 ds) \<longrightarrow>
         addPaginationToSQL E sql limit offset =
           (if dbType E = ''postgresql''
            then body @ '' LIMIT '' @ string_of_num (num_min (Num (digits_value 10 ds)) limit)
                   @ '' OFFSET '' @ string_of_num offset
            else body @ '' LIMIT '' @ string_of_num offset @ '', ''
                   @ string_of_num (num_min (Num (digits_value 10 ds)) limit)))
   \<and> ((\<forall>body ds. \<not> trailing_limit (strip_semicolons (trim sql)) body ds) \<longrightarrow>
         addPaginationToSQL E sql limit offset =
           (if dbType E = ''postgresql''
            then strip_semicolons (trim sql) @ '' LIMIT '' @ string_of_num limit
                   @ '' OFFSET '' @ string_of_num offset
            else strip_semicolons (trim sql) @ '' LIMIT '' @ string_of_num offset @ '', ''
                   @ string_of_num limit))"
proof -
  have with_clause: "\<forall>body ds. trailing_limit (strip_semicolons (trim sql)) body ds \<and>
                 safe (digits_value 10 ds) \<longrightarrow>
         addPaginationToSQL E sql limit offset =
           (if dbType E = ''postgresql''
            then body @ '' LIMIT '' @ string_of_num (num_min (Num (digits_value 10 ds)) limit)
                   @ '' OFFSET '' @ string_of_num offset
            else body @ '' LIMIT '' @ string_of_num offset @ '', ''
                   @ string_of_num (num_min (Num (digits_value 10 ds)) limit))"
  proof (intro allI impI)
    fix body ds
    assume "trailing_limit (strip_semicolons (trim sql)) body ds \<and> safe (digits_value 10 ds)"
    then have tl: "trailing_limit (strip_semicolons (trim sql)) body ds"
      by blast
    then have m: "limit_match (strip_semicolons (trim sql)) = Some (body, ds)"
      by (simp add: trailing_limit_iff)
    from tl have n: "parseInt_string ds = Num (digits_value 10 ds)"
      by (intro parseInt_digits trailing_limit_digits)
    show "addPaginationToSQL E sql limit offset =
           (if dbType E = ''postgresql''
            then body @ '' LIMIT '' @ string_of_num (num_min (Num (digits_value 10 ds)) limit)
                   @ '' OFFSET '' @ string_of_num offset
            else body @ '' LIMIT '' @ string_of_num offset @ '', ''
                   @ string_of_num (num_min (Num (digits_value 10 ds)) limit))"
      by (simp add: addPaginationToSQL_def m n)
  qed
  have without: "(\<forall>body ds. \<not> trailing_limit (strip_semicolons (trim sql)) body ds) \<longrightarrow>
         addPaginationToSQL E sql limit offset =
           (if dbType E = ''postgresql''
            then strip_semicolons (trim sql) @ '' LIMIT '' @ string_of_num limit
                   @ '' OFFSET '' @ string_of_num offset
            else strip_semicolons (trim sql) @ '' LIMIT '' @ string_of_num offset @ '', ''
                   @ string_of_num limit)"
    by (simp add: no_trailing_limit_iff addPaginationToSQL_def)
  from strip_semicolons_run [of "trim sql"] strip_semicolons_end [of "trim sql"]
    with_clause without
  show ?thesis
    by blast
qed

lemma mysql_env_fields [simp]: "DB_TYPE mysql_env = Some ''mysql''"
  by (simp add: mysql_env_def)

text \<open>
  The two examples of the specification: an existing limit of 5 against a page size of 50
  on page 1, and no limit with a page size of 20 on page 3, in the PostgreSQL dialect; and
  a clause with an offset and a run of semicolons after it, in both dialects.
\<close>

lemma specification_examples:
  "addPaginationToSQL demo_env ''SELECT * FROM orders LIMIT 5'' (Num 50)
       (num_times (num_minus (Num 1) (Num 1)) (Num 50))
     = ''SELECT * FROM orders LIMIT 5 OFFSET 0''"
  "addPaginationToSQL demo_env ''SELECT * FROM orders'' (Num 20)
       (num_times (num_minus (Num 3) (Num 1)) (Num 20))
     = ''SELECT * FROM orders LIMIT 20 OFFSET 40''"
  "addPaginationToSQL mysql_env ''SELECT * FROM orders limit 5 offset 10;;'' (Num 50) (Num 100)
     = ''SELECT * FROM orders LIMIT 100, 5''"
  "addPaginationToSQL demo_env ''SELECT * FROM orders limit 5 offset 10;;'' (Num 3) (Num 0)
     = ''SELECT * FROM orders LIMIT 3 OFFSET 0''"
  by (simp_all add: rewriter_eval)

text \<open>
  C4. White space between a limit clause and the final semicolons hides the clause from
  the rewriter. \<open>trim\<close> runs before the semicolons are removed and not after, so the
  cleaned text ends in a blank, and the pattern, which is anchored at the end of the text,
  finds no clause. The statement \<open>SELECT * FROM orders LIMIT 5 ;\<close> passes the validator and,
  for page 1 with 50 rows a page, leaves the rewriter with two limit clauses, the second
  one with the limit 50. Without the blank the clause is found, and the limit is 5.
\<close>

theorem C4_limit_before_semicolon:
  "validateQuery ''SELECT * FROM orders LIMIT 5 ;'' = Inr ()
   \<and> strip_semicolons (trim ''SELECT * FROM orders LIMIT 5 ;'') = ''SELECT * FROM orders LIMIT 5 ''
   \<and> limit_match ''SELECT * FROM orders LIMIT 5 '' = None
   \<and> addPaginationToSQL demo_env ''SELECT * FROM orders LIMIT 5 ;'' (Num 50) (Num 0)
       = ''SELECT * FROM orders LIMIT 5  LIMIT 50 OFFSET 0''
   \<and> addPaginationToSQL mysql_env ''SELECT * FROM orders LIMIT 5 ;'' (Num 50) (Num 0)
       = ''SELECT * FROM orders LIMIT 5  LIMIT 0, 50''
   \<and> addPaginationToSQL demo_env ''SELECT * FROM orders LIMIT 5;'' (Num 50) (Num 0)
       = ''SELECT * FROM orders LIMIT 5 OFFSET 0''"
proof -
  have valid: "validateQuery ''SELECT * FROM orders LIMIT 5 ;'' = Inr ()"
    by (simp add: validator_eval)
  have clean: "strip_semicolons (trim ''SELECT * FROM orders LIMIT 5 ;'')
                 = ''SELECT * FROM orders LIMIT 5 ''"
    by (simp add: strip_semicolons_def trim_def)
  have hidden: "limit_match ''SELECT * FROM orders LIMIT 5 '' = None"
    by (simp add: limit_at_def offset_tail_def Let_def)
  have pg: "addPaginationToSQL demo_env ''SELECT * FROM orders LIMIT 5 ;'' (Num 50) (Num 0)
              = ''SELECT * FROM orders LIMIT 5  LIMIT 50 OFFSET 0''"
    by (simp add: addPaginationToSQL_def clean hidden number_eval dbType_def
        del: limit_match.simps)
  have my: "addPaginationToSQL mysql_env ''SELECT * FROM orders LIMIT 5 ;'' (Num 50) (Num 0)
              = ''SELECT * FROM orders LIMIT 5  LIMIT 0, 50''"
    by (simp add: addPaginationToSQL_def clean hidden number_eval dbType_def
        del: limit_match.simps)
  have found: "addPaginationToSQL demo_env ''SELECT * FROM orders LIMIT 5;'' (Num 50) (Num 0)
              = ''SELECT * FROM orders LIMIT 5 OFFSET 0''"
    by (simp add: rewriter_eval)
  from valid clean hidden pg my found show ?thesis
    by blast
qed

section \<open>Properties of the executor\<close>

lemma clamp_page_Num: "clamp_page (Num p) = Num (if p < 1 then 1 else p)"
  by (simp add: clamp_page_def)

lemma clamp_pageSize_Num: "clamp_pageSize (Num n) = Num (if n < 1 \<or> n > 100 then 50 else n)"
  by (simp add: clamp_pageSize_def defaultPageSize_def)

lemma clamp_NaN: "clamp_page NaN = NaN" "clamp_pageSize NaN = NaN"
  by (simp_all add: clamp_page_def clamp_pageSize_def)

lemma clamp_idem [simp]:
  "clamp_page (clamp_page p) = clamp_page p"
  "clamp_pageSize (clamp_pageSize n) = clamp_pageSize n"
  by (cases p; simp add: clamp_page_def)
     (cases n; simp add: clamp_pageSize_def defaultPageSize_def)

lemma zero_pages:
  "ceil_div (Num 0) (clamp_pageSize n) = (if n = NaN then NaN else Num 0)"
  by (cases n) (simp_all add: clamp_pageSize_def defaultPageSize_def)

lemma no_next_page:
  "num_less (clamp_page p) (if n = NaN then NaN else Num 0) = False"
  by (cases p) (simp_all add: clamp_page_def)

lemma count_query_rejected:
  "database_query E (count_statement sql) = Inl e \<Longrightarrow> getTotalCount_try E sql = Inl e"
  by (simp add: getTotalCount_try_def)

text \<open>
  C5. Take a validated statement of a request that is no dry run and that the cache does
  not answer. If the paginated query succeeds (and its column metadata can be read) while
  the \<open>try\<close> block of \<open>getTotalCount\<close> raises, for whatever reason, then \<open>executeQuery\<close>
  returns the rows of the paginated query with \<open>totalRows = 0\<close>, \<open>totalPages = 0\<close> and
  \<open>hasNextPage = false\<close>; where the page size is \<open>NaN\<close>, the quotient of that zero by it,
  \<open>totalPages\<close>, is \<open>NaN\<close>.
\<close>

theorem C5_count_failure:
  assumes valid: "validateQuery sql = Inr ()"
    and live: "\<not> dryRun opts"
    and miss: "useCache opts \<longrightarrow>
               \<not> truthy (fst (cacheService_get E
                   (generateCacheKey E sql (opt_page opts) (opt_pageSize opts))
                   default_get_options s))"
    and main: "database_query E
                 (addPaginationToSQL E sql (clamp_pageSize (opt_pageSize opts))
                    (num_times (num_minus (clamp_page (opt_page opts)) (Num 1))
                       (clamp_pageSize (opt_pageSize opts))))
               = Inr result"
    and infos: "(case db_fields result of None \<Rightarrow> Inr [] | Some fs \<Rightarrow> map_fields fs) = Inr infos"
    and count: "getTotalCount_try E sql = Inl e"
  shows "fst (executeQuery E sql opts s) =
           Inr (Result \<lparr>rows = db_rows result,
                  pagination = \<lparr>page = clamp_page (opt_page opts),
                    pageSize = clamp_pageSize (opt_pageSize opts),
                    totalRows = Num 0,
                    totalPages = (if opt_pageSize opts = NaN then NaN else Num 0),
                    hasNextPage = False,
                    hasPreviousPage = num_less (Num 1) (clamp_page (opt_page opts))\<rparr>,
                  metadata = \<lparr>executionTime = elapsed E, rowCount = length (db_rows result),
                    fieldInfos = infos\<rparr>,
                  fromCache = False\<rparr>)"
proof -
  have total: "getTotalCount E sql = Num 0"
    using count by (simp add: getTotalCount_def)
  have run: "executeWithPagination E sql (opt_page opts) (opt_pageSize opts) =
           Inr \<lparr>rows = db_rows result,
                  pagination = \<lparr>page = clamp_page (opt_page opts),
                    pageSize = clamp_pageSize (opt_pageSize opts),
                    totalRows = Num 0,
                    totalPages = (if opt_pageSize opts = NaN then NaN else Num 0),
                    hasNextPage = False,
                    hasPreviousPage = num_less (Num 1) (clamp_page (opt_page opts))\<rparr>,
                  metadata = \<lparr>executionTime = elapsed E, rowCount = length (db_rows result),
                    fieldInfos = infos\<rparr>,
                  fromCache = False\<rparr>"
    using main infos
    by (simp add: executeWithPagination_def executeWithPagination_try_def Let_def total
        zero_pages no_next_page)
  show ?thesis
    using valid live miss
    by (auto simp: executeQuery_def run Let_def case_prod_beta)
qed

theorem C5_count_failure_witness:
  "validateQuery ''SELECT id FROM users'' = Inr ()
   \<and> database_query demo_env (count_statement ''SELECT id FROM users'')
       = Inl (Error ''statement rejected'')
   \<and> fst (executeQuery demo_env ''SELECT id FROM users'' default_exec_options fresh_state) =
       Inr (Result \<lparr>rows = [JObj [(''id'', JNum 1)], JObj [(''id'', JNum 2)]],
              pagination = \<lparr>page = Num 1, pageSize = Num 50, totalRows = Num 0,
                totalPages = Num 0, hasNextPage = False, hasPreviousPage = False\<rparr>,
              metadata = \<lparr>executionTime = 7, rowCount = 2,
                fieldInfos = [\<lparr>field_name = JStr ''id'', field_type = JNum 23\<rparr>]\<rparr>,
              fromCache = False\<rparr>)"
proof -
  let ?result = "\<lparr>db_rows = [JObj [(''id'', JNum 1)], JObj [(''id'', JNum 2)]],
                  db_fields = Some [JObj [(''name'', JStr ''id''), (''dataTypeID'', JNum 23)]]\<rparr>"
  have live: "\<not> dryRun default_exec_options"
    by (simp add: default_exec_options_def)
  have miss: "useCache default_exec_options \<longrightarrow>
               \<not> truthy (fst (cacheService_get demo_env
                   (generateCacheKey demo_env ''SELECT id FROM users''
                      (opt_page default_exec_options) (opt_pageSize default_exec_options))
                   default_get_options fresh_state))"
    by (simp add: cache_eval fresh_state_def)
  have main: "database_query demo_env
                 (addPaginationToSQL demo_env ''SELECT id FROM users''
                    (clamp_pageSize (opt_pageSize default_exec_options))
                    (num_times (num_minus (clamp_page (opt_page default_exec_options)) (Num 1))
                       (clamp_pageSize (opt_pageSize default_exec_options))))
               = Inr ?result"
    by (simp add: clamp_page_def clamp_pageSize_def users_first_page demo_eval)
  have infos: "(case db_fields ?result of None \<Rightarrow> Inr [] | Some fs \<Rightarrow> map_fields fs)
                 = Inr [\<lparr>field_name = JStr ''id'', field_type = JNum 23\<rparr>]"
    by (simp add: js_or_def)
  have rejected: "database_query demo_env (count_statement ''SELECT id FROM users'')
                    = Inl (Error ''statement rejected'')"
    by (simp add: count_statement_def strip_semicolons_def trim_def demo_eval)
  note count = count_query_rejected [OF rejected]
  from C5_count_failure [OF users_statement_valid live miss main infos count]
    users_statement_valid rejected
  show ?thesis
    by (simp add: clamp_page_def clamp_pageSize_def default_exec_options_def defaultPageSize_def)
qed

lemma executeWithPagination_clamped:
  "executeWithPagination E sql p n = executeWithPagination E sql (clamp_page p) (clamp_pageSize n)"
  by (simp add: executeWithPagination_def)

lemma executeWithPagination_page:
  "executeWithPagination E sql p n = Inr r \<Longrightarrow>
   page (pagination r) = clamp_page p \<and> pageSize (pagination r) = clamp_pageSize n"
  by (auto simp: executeWithPagination_def executeWithPagination_try_def Let_def
      split: sum.splits error.splits)

lemma executeWithPagination_statement:
  "executeWithPagination E sql (Num p) (Num n) =
     (case executeWithPagination_try E sql (clamp_page (Num p)) (clamp_pageSize (Num n))
             (addPaginationToSQL E sql (clamp_pageSize (Num n))
                (Num (((if p < 1 then 1 else p) - 1) * (if n < 1 \<or> n > 100 then 50 else n)))) of
        Inl (Error message) \<Rightarrow> Inl (Error (''Query execution failed: '' @ message))
      | Inr r \<Rightarrow> Inr r)"
  by (simp add: executeWithPagination_def clamp_page_def clamp_pageSize_def defaultPageSize_def
      Let_def)

lemma safe_offset:
  assumes "safe (100 * p)"
  shows "safe (((if p < 1 then 1 else p) - 1) * (if n < 1 \<or> n > 100 then 50 else n))"
proof (cases "p < 1")
  case True
  then show ?thesis by (simp add: safe_def)
next
  case False
  define a where "a = p - 1"
  define m where "m = (if n < 1 \<or> n > 100 then 50 else n)"
  have a: "0 \<le> a" using False by (simp add: a_def)
  have m: "1 \<le> m" "m \<le> 100" by (simp_all add: m_def)
  have "a * m \<le> a * 100"
    using a m by (intro mult_left_mono) simp_all
  moreover have "0 \<le> a * m"
    using a m by simp
  moreover have "a * 100 < 2 ^ 53"
    using assms by (simp add: safe_def a_def)
  ultimately have "safe (a * m)"
    by (simp add: safe_def)
  then show ?thesis
    using False by (simp add: a_def m_def)
qed

text \<open>
  C6, as the code has it, for a request whose page and page size are integers in the range
  where JavaScript computes exactly. \<open>executeWithPagination\<close> clamps \<open>page\<close> and \<open>pageSize\<close>
  before it uses them: \<open>page < 1\<close> becomes 1 and a \<open>pageSize\<close> outside \<open>[1,100]\<close> becomes 50;
  its outcome is that of the clamped values, the offset and the statement sent to the
  database are computed from them, and the pagination record carries them. The cache key
  in \<open>executeQuery\<close>, for the lookup and for the write alike, is derived from \<open>page\<close> and
  \<open>pageSize\<close> as the caller gave them.
\<close>

theorem C6_clamped_in_executor:
  assumes given: "opt_page opts = Num p" "opt_pageSize opts = Num n"
    and exact: "safe (100 * p)" "safe n"
  shows "clamp_page (Num p) = Num (if p < 1 then 1 else p)
   \<and> clamp_pageSize (Num n) = Num (if n < 1 \<or> n > 100 then 50 else n)
   \<and> executeWithPagination E sql (Num p) (Num n)
       = executeWithPagination E sql (clamp_page (Num p)) (clamp_pageSize (Num n))
   \<and> executeWithPagination E sql (Num p) (Num n) =
       (case executeWithPagination_try E sql (clamp_page (Num p)) (clamp_pageSize (Num n))
               (addPaginationToSQL E sql (clamp_pageSize (Num n))
                  (Num (((if p < 1 then 1 else p) - 1)
                          * (if n < 1 \<or> n > 100 then 50 else n)))) of
          Inl (Error message) \<Rightarrow> Inl (Error (''Query execution failed: '' @ message))
        | Inr r \<Rightarrow> Inr r)
   \<and> safe (((if p < 1 then 1 else p) - 1) * (if n < 1 \<or> n > 100 then 50 else n))
   \<and> (\<forall>r. executeWithPagination E sql (Num p) (Num n) = Inr r \<longrightarrow>
          page (pagination r) = clamp_page (Num p) \<and>
          pageSize (pagination r) = clamp_pageSize (Num n))
   \<and> generateCacheKey E sql (opt_page opts) (opt_pageSize opts)
       = cachePrefix @ md5_hex E (sql @ '':'' @ string_of_int p @ '':'' @ string_of_int n)
   \<and> (validateQuery sql = Inr () \<and> useCache opts \<and> \<not> dryRun opts \<and>
        truthy (fst (cacheService_get E
           (generateCacheKey E sql (Num p) (Num n)) default_get_options s)) \<longrightarrow>
        fst (executeQuery E sql opts s) =
          Inr (Cached (fst (cacheService_get E
           (generateCacheKey E sql (Num p) (Num n)) default_get_options s))))
   \<and> (\<forall>r. validateQuery sql = Inr () \<and> useCache opts \<and> \<not> dryRun opts \<and>
        \<not> truthy (fst (cacheService_get E
           (generateCacheKey E sql (Num p) (Num n)) default_get_options s)) \<and>
        executeWithPagination E sql (Num p) (Num n) = Inr r \<and> rows r \<noteq> [] \<longrightarrow>
        snd (executeQuery E sql opts s) =
          snd (cacheService_set E (generateCacheKey E sql (Num p) (Num n))
                 (jsval_of_result r) cacheTTL default_set_options
                 (snd (cacheService_get E
                    (generateCacheKey E sql (Num p) (Num n))
                    default_get_options s))))"
proof -
  have key: "generateCacheKey E sql (opt_page opts) (opt_pageSize opts)
       = cachePrefix @ md5_hex E (sql @ '':'' @ string_of_int p @ '':'' @ string_of_int n)"
    by (simp add: generateCacheKey_def given)
  have hit: "validateQuery sql = Inr () \<and> useCache opts \<and> \<not> dryRun opts \<and>
        truthy (fst (cacheService_get E
           (generateCacheKey E sql (Num p) (Num n)) default_get_options s)) \<longrightarrow>
        fst (executeQuery E sql opts s) =
          Inr (Cached (fst (cacheService_get E
           (generateCacheKey E sql (Num p) (Num n)) default_get_options s)))"
    by (simp add: executeQuery_def case_prod_beta given)
  have store_key: "\<forall>r. validateQuery sql = Inr () \<and> useCache opts \<and> \<not> dryRun opts \<and>
        \<not> truthy (fst (cacheService_get E
           (generateCacheKey E sql (Num p) (Num n)) default_get_options s)) \<and>
        executeWithPagination E sql (Num p) (Num n) = Inr r \<and> rows r \<noteq> [] \<longrightarrow>
        snd (executeQuery E sql opts s) =
          snd (cacheService_set E (generateCacheKey E sql (Num p) (Num n))
                 (jsval_of_result r) cacheTTL default_set_options
                 (snd (cacheService_get E
                    (generateCacheKey E sql (Num p) (Num n))
                    default_get_options s)))"
    by (simp add: executeQuery_def case_prod_beta given)
  have meta: "\<forall>r. executeWithPagination E sql (Num p) (Num n) = Inr r \<longrightarrow>
          page (pagination r) = clamp_page (Num p) \<and>
          pageSize (pagination r) = clamp_pageSize (Num n)"
    using executeWithPagination_page [of E sql "Num p" "Num n"] by blast
  from clamp_page_Num [of p] clamp_pageSize_Num [of n]
    executeWithPagination_clamped [of E sql "Num p" "Num n"]
    executeWithPagination_statement [of E sql p n] safe_offset [OF exact(1), of n]
    meta key hit store_key
  show ?thesis
    by blast
qed

lemma users_key:
  "generateCacheKey demo_env ''SELECT id FROM users'' (Num 0) (Num 500) =
     ''query:result:SELECT id FROM users:0:500''"
  by (simp add: generateCacheKey_def cachePrefix_def number_eval)

theorem C6_clamped_in_executor_witness:
  "opt_page page0_options = Num 0 \<and> opt_pageSize page0_options = Num 500
   \<and> safe (100 * 0) \<and> safe 500
   \<and> clamp_page (Num 0) = Num 1 \<and> clamp_pageSize (Num 500) = Num 50
   \<and> executeWithPagination demo_env ''SELECT id FROM users'' (Num 0) (Num 500)
       = executeWithPagination demo_env ''SELECT id FROM users'' (Num 1) (Num 50)
   \<and> executeWithPagination demo_env ''SELECT id FROM users'' (Num 0) (Num 500)
       = (case executeWithPagination_try demo_env ''SELECT id FROM users'' (Num 1) (Num 50)
                 ''SELECT id FROM users LIMIT 50 OFFSET 0'' of
            Inl (Error message) \<Rightarrow> Inl (Error (''Query execution failed: '' @ message))
          | Inr r \<Rightarrow> Inr r)
   \<and> fst (executeQuery demo_env ''SELECT id FROM users'' page0_options stale_state)
       = Inr (Cached (JNum 7))
   \<and> store (redis (snd (executeQuery demo_env ''SELECT id FROM users'' page0_options fresh_state)))
        ''query:result:SELECT id FROM users:0:500'' \<noteq> None"
proof -
  have given: "opt_page page0_options = Num 0" "opt_pageSize page0_options = Num 500"
    by (simp_all add: page0_options_def)
  have exact: "safe (100 * 0)" "safe 500"
    by (simp_all add: safe_def)
  note th = C6_clamped_in_executor [OF given exact, of demo_env "''SELECT id FROM users''"]
  note t1 = th [THEN conjunct1]
  note t2 = th [THEN conjunct2, THEN conjunct1]
  note t3 = th [THEN conjunct2, THEN conjunct2, THEN conjunct1]
  note t4 = th [THEN conjunct2, THEN conjunct2, THEN conjunct2, THEN conjunct1]
  note t8 = th [THEN conjunct2, THEN conjunct2, THEN conjunct2, THEN conjunct2, THEN conjunct2,
                THEN conjunct2, THEN conjunct2, THEN conjunct1]
  note t9 = th [THEN conjunct2, THEN conjunct2, THEN conjunct2, THEN conjunct2, THEN conjunct2,
                THEN conjunct2, THEN conjunct2, THEN conjunct2]
  let ?key = "generateCacheKey demo_env ''SELECT id FROM users'' (Num 0) (Num 500)"
  let ?r = "\<lparr>rows = [JObj [(''id'', JNum 1)], JObj [(''id'', JNum 2)]],
          pagination = \<lparr>page = Num 1, pageSize = Num 50, totalRows = Num 0, totalPages = Num 0,
            hasNextPage = False, hasPreviousPage = False\<rparr>,
          metadata = \<lparr>executionTime = 7, rowCount = 2,
            fieldInfos = [\<lparr>field_name = JStr ''id'', field_type = JNum 23\<rparr>]\<rparr>,
          fromCache = False\<rparr>"
  have opts: "useCache page0_options" "\<not> dryRun page0_options"
    by (simp_all add: page0_options_def)
  have stale: "fst (cacheService_get demo_env ?key default_get_options stale_state) = JNum 7"
    unfolding users_key by (simp add: cache_eval stale_state_def)
  have fresh: "\<not> truthy (fst (cacheService_get demo_env ?key default_get_options fresh_state))"
    unfolding users_key by (simp add: cache_eval fresh_state_def)
  have nonempty: "rows ?r \<noteq> []"
    by simp
  from t1 have c1: "clamp_page (Num 0) = Num 1"
    by simp
  from t2 have c2: "clamp_pageSize (Num 500) = Num 50"
    by simp
  have c3: "executeWithPagination demo_env ''SELECT id FROM users'' (Num 0) (Num 500)
              = executeWithPagination demo_env ''SELECT id FROM users'' (Num 1) (Num 50)"
    using t3 unfolding c1 c2 .
  from t4 have c4: "executeWithPagination demo_env ''SELECT id FROM users'' (Num 0) (Num 500)
       = (case executeWithPagination_try demo_env ''SELECT id FROM users'' (Num 1) (Num 50)
                 ''SELECT id FROM users LIMIT 50 OFFSET 0'' of
            Inl (Error message) \<Rightarrow> Inl (Error (''Query execution failed: '' @ message))
          | Inr r \<Rightarrow> Inr r)"
    unfolding c1 c2 by (simp add: users_first_page)
  have "truthy (fst (cacheService_get demo_env ?key default_get_options stale_state))"
    unfolding stale by simp
  with t8 [of stale_state] users_statement_valid opts
  have "fst (executeQuery demo_env ''SELECT id FROM users'' page0_options stale_state)
          = Inr (Cached (fst (cacheService_get demo_env ?key default_get_options stale_state)))"
    by blast
  then have c5: "fst (executeQuery demo_env ''SELECT id FROM users'' page0_options stale_state)
              = Inr (Cached (JNum 7))"
    unfolding stale .
  from t9 [of fresh_state] users_statement_valid opts fresh users_page nonempty
  have "snd (executeQuery demo_env ''SELECT id FROM users'' page0_options fresh_state) =
          snd (cacheService_set demo_env ?key (jsval_of_result ?r) cacheTTL default_set_options
                 (snd (cacheService_get demo_env ?key default_get_options fresh_state)))"
    by blast
  then have c6: "store (redis (snd (executeQuery demo_env ''SELECT id FROM users'' page0_options
                    fresh_state))) ''query:result:SELECT id FROM users:0:500'' \<noteq> None"
    unfolding users_key by (simp add: cache_eval fresh_state_def)
  from given exact c1 c2 c3 c4 c5 c6 show ?thesis by blast
qed

text \<open>
  C6 as stated fails at the cache key. A request for page 0 with page size 500 runs as
  page 1 with page size 50, and its result is stored under the key of the values as given.
\<close>

theorem C6_cache_key_counterexample:
  "fst (executeQuery demo_env ''SELECT id FROM users'' page0_options fresh_state) =
     Inr (Result \<lparr>rows = [JObj [(''id'', JNum 1)], JObj [(''id'', JNum 2)]],
          pagination = \<lparr>page = Num 1, pageSize = Num 50, totalRows = Num 0,
            totalPages = Num 0, hasNextPage = False, hasPreviousPage = False\<rparr>,
          metadata = \<lparr>executionTime = 7, rowCount = 2,
            fieldInfos = [\<lparr>field_name = JStr ''id'', field_type = JNum 23\<rparr>]\<rparr>,
          fromCache = False\<rparr>)
   \<and> store (redis (snd (executeQuery demo_env ''SELECT id FROM users'' page0_options fresh_state)))
        ''query:result:SELECT id FROM users:0:500'' \<noteq> None
   \<and> store (redis (snd (executeQuery demo_env ''SELECT id FROM users'' page0_options fresh_state)))
        ''query:result:SELECT id FROM users:1:50'' = None
   \<and> generateCacheKey demo_env ''SELECT id FROM users'' (clamp_page (Num 0))
        (clamp_pageSize (Num 500)) = ''query:result:SELECT id FROM users:1:50''"
  by (simp add: executeQuery_def users_statement_valid page0_options_def users_page users_key
      cache_eval fresh_state_def clamp_page_def clamp_pageSize_def defaultPageSize_def)

text \<open>
  \<open>NaN\<close>, which \<open>parseInt\<close> gives for a missing or non-numeric request field, is below no
  number and above none: it passes both guards of the executor as it is and reaches the
  statement.
\<close>

lemma NaN_passes_the_guards:
  "clamp_page NaN = NaN"
  "clamp_pageSize NaN = NaN"
  "addPaginationToSQL demo_env ''SELECT id FROM users'' (clamp_pageSize NaN)
       (num_times (num_minus (clamp_page NaN) (Num 1)) (clamp_pageSize NaN))
     = ''SELECT id FROM users LIMIT NaN OFFSET NaN''"
  by (simp_all add: clamp_NaN rewriter_eval)

section \<open>Properties of the plan analyzer\<close>

text \<open>
  C9. \<open>explainQuery\<close> returns a result for every environment and every text. When the
  explain statement cannot be built (a database type other than \<open>postgresql\<close> and
  \<open>mysql\<close>) or the database rejects it, the result has \<open>isValid = false\<close>, no plan, no cost
  and the single warning "Query validation failed". When the database answers, the
  result has \<open>isValid = true\<close>, the rows as plan, the cost extracted from them and the
  warnings of the plan scan.
\<close>

theorem C9_explain_never_raises:
  "\<exists>r. explainQuery E sql = Inr r \<and>
     ((\<exists>e. explain_statement E sql = Inl e) \<or>
      (\<exists>text e. explain_statement E sql = Inr text \<and> database_query E text = Inl e) \<longrightarrow>
        \<not> isValid r \<and> warnings r = [''Query validation failed''] \<and>
        explainPlan r = JNull \<and> estimatedCost r = None) \<and>
     (\<forall>text result. explain_statement E sql = Inr text \<and> database_query E text = Inr result \<longrightarrow>
        isValid r \<and> explainPlan r = JArr (db_rows result) \<and>
        estimatedCost r = Some (extractCostFromPlan E (db_rows result)) \<and>
        warnings r = analyzeExecutionPlan E (db_rows result))"
proof (cases "explainQuery_try E sql")
  case (Inl e)
  obtain message where e: "e = Error message"
    by (cases e)
  have unanswered: "\<not> (\<exists>stmt result. explain_statement E sql = Inr stmt \<and>
                          database_query E stmt = Inr result)"
    using Inl by (auto simp: explainQuery_try_def split: sum.splits)
  show ?thesis
    using Inl e unanswered by (simp add: explainQuery_def)
next
  case (Inr ok)
  then obtain stmt result where
    st: "explain_statement E sql = Inr stmt" and q: "database_query E stmt = Inr result"
    and ok: "ok = \<lparr>explainPlan = JArr (db_rows result), isValid = True,
                   estimatedCost = Some (extractCostFromPlan E (db_rows result)),
                   error_message = None,
                   warnings = analyzeExecutionPlan E (db_rows result)\<rparr>"
    by (auto simp: explainQuery_try_def split: sum.splits)
  show ?thesis
    using Inr st q ok by (simp add: explainQuery_def)
qed

theorem C9_explain_never_raises_witness:
  "\<not> isl (explainQuery demo_env ''SELECT id FROM users'')
   \<and> isValid (projr (explainQuery demo_env ''SELECT id FROM users''))
   \<and> estimatedCost (projr (explainQuery demo_env ''SELECT id FROM users''))
       = Some \<lparr>startupCost = JNum 0, totalCost = JNum 35, estimatedRows = JNum 2550\<rparr>
   \<and> warnings (projr (explainQuery demo_env ''SELECT id FROM users''))
       = [''Query performs full table scan - consider adding indexes'']
   \<and> \<not> isl (explainQuery demo_env ''SELECT id FROM nothing'')
   \<and> \<not> isValid (projr (explainQuery demo_env ''SELECT id FROM nothing''))
   \<and> warnings (projr (explainQuery demo_env ''SELECT id FROM nothing''))
       = [''Query validation failed'']
   \<and> \<not> isl (explainQuery sqlite_env ''SELECT id FROM users'')
   \<and> \<not> isValid (projr (explainQuery sqlite_env ''SELECT id FROM users''))
   \<and> warnings (projr (explainQuery sqlite_env ''SELECT id FROM users''))
       = [''Query validation failed'']"
proof -
  let ?plan = "[JObj [(''Plan'', JObj [(''Node Type'', JStr ''Seq Scan''),
                   (''Startup Cost'', JNum 0), (''Total Cost'', JNum 35), (''Plan Rows'', JNum 2550)])]]"
  obtain r1 where r1: "explainQuery demo_env ''SELECT id FROM users'' = Inr r1"
    and answered: "\<forall>stmt result. explain_statement demo_env ''SELECT id FROM users'' = Inr stmt \<and>
            database_query demo_env stmt = Inr result \<longrightarrow>
            isValid r1 \<and> explainPlan r1 = JArr (db_rows result) \<and>
            estimatedCost r1 = Some (extractCostFromPlan demo_env (db_rows result)) \<and>
            warnings r1 = analyzeExecutionPlan demo_env (db_rows result)"
    using C9_explain_never_raises [of demo_env "''SELECT id FROM users''"] by blast
  have st1: "explain_statement demo_env ''SELECT id FROM users''
               = Inr ''EXPLAIN (FORMAT JSON, ANALYZE false) SELECT id FROM users''"
    by (simp add: explain_statement_def dbType_def)
  have q1: "database_query demo_env ''EXPLAIN (FORMAT JSON, ANALYZE false) SELECT id FROM users''
              = Inr \<lparr>db_rows = ?plan, db_fields = None\<rparr>"
    by (simp add: demo_eval)
  have cost: "extractCostFromPlan demo_env ?plan
                = \<lparr>startupCost = JNum 0, totalCost = JNum 35, estimatedRows = JNum 2550\<rparr>"
    by (simp add: extractCostFromPlan_def extractCostFromPlan_try_def)
  have scan: "analyzeExecutionPlan demo_env ?plan
                = [''Query performs full table scan - consider adding indexes'']"
    by (simp add: analyzeExecutionPlan_def toLowerCase_def quoted_def number_eval startsWith_def
        dquote_def)
  from answered st1 q1
  have "isValid r1 \<and> estimatedCost r1 = Some (extractCostFromPlan demo_env ?plan) \<and>
        warnings r1 = analyzeExecutionPlan demo_env ?plan"
    by fastforce
  then have a: "isValid r1"
    and b: "estimatedCost r1 = Some \<lparr>startupCost = JNum 0, totalCost = JNum 35,
                                      estimatedRows = JNum 2550\<rparr>"
    and c: "warnings r1 = [''Query performs full table scan - consider adding indexes'']"
    by (simp_all add: cost scan)
  obtain r2 where r2: "explainQuery demo_env ''SELECT id FROM nothing'' = Inr r2"
    and rejected: "(\<exists>e. explain_statement demo_env ''SELECT id FROM nothing'' = Inl e) \<or>
            (\<exists>stmt e. explain_statement demo_env ''SELECT id FROM nothing'' = Inr stmt \<and>
               database_query demo_env stmt = Inl e) \<longrightarrow>
            \<not> isValid r2 \<and> warnings r2 = [''Query validation failed''] \<and>
            explainPlan r2 = JNull \<and> estimatedCost r2 = None"
    using C9_explain_never_raises [of demo_env "''SELECT id FROM nothing''"] by blast
  have st2: "explain_statement demo_env ''SELECT id FROM nothing''
               = Inr ''EXPLAIN (FORMAT JSON, ANALYZE false) SELECT id FROM nothing''"
    by (simp add: explain_statement_def dbType_def)
  have q2: "database_query demo_env ''EXPLAIN (FORMAT JSON, ANALYZE false) SELECT id FROM nothing''
              = Inl (Error ''statement rejected'')"
    by (simp add: demo_eval)
  from rejected st2 q2
  have d: "\<not> isValid r2 \<and> warnings r2 = [''Query validation failed'']"
    by blast
  obtain r3 where r3: "explainQuery sqlite_env ''SELECT id FROM users'' = Inr r3"
    and unsupported: "(\<exists>e. explain_statement sqlite_env ''SELECT id FROM users'' = Inl e) \<or>
            (\<exists>stmt e. explain_statement sqlite_env ''SELECT id FROM users'' = Inr stmt \<and>
               database_query sqlite_env stmt = Inl e) \<longrightarrow>
            \<not> isValid r3 \<and> warnings r3 = [''Query validation failed''] \<and>
            explainPlan r3 = JNull \<and> estimatedCost r3 = None"
    using C9_explain_never_raises [of sqlite_env "''SELECT id FROM users''"] by blast
  have st3: "explain_statement sqlite_env ''SELECT id FROM users''
               = Inl (Error ''Explain not supported for database type: sqlite'')"
    by (simp add: explain_statement_def dbType_def sqlite_env_def)
  from unsupported st3
  have f: "\<not> isValid r3 \<and> warnings r3 = [''Query validation failed'']"
    by blast
  from a b c d f show ?thesis
    by (simp add: r1 r2 r3)
qed

end
